theory Spec2Isabelle
  imports Complex_Main
begin

section \<open>The compositing stage of a playout channel (core/producer/stage.cpp)\<close>

text \<open>
  The stage keeps two ordered tables, \<^verbatim>\<open>std::map<int, layer> layers_\<close> and
  \<^verbatim>\<open>std::map<int, std::map<void*, layer_consumer_entry>> layer_consumers_\<close>.
  A \<^verbatim>\<open>std::map\<close> is an association list with strictly ascending keys: the
  interaction hit-test walks the layer table in reverse key order, so the order is
  part of the model. Every command of the stage is a closure handed to the stage's
  executor; the closure bodies are the functions named \<open>..._func\<close> below, and
  the public operations return a completion handle that carries the closure.
\<close>

subsection \<open>\<^verbatim>\<open>std::map\<close> and \<^verbatim>\<open>std::set\<close>\<close>

definition keys :: "('k \<times> 'v) list \<Rightarrow> 'k list" where
  "keys m = map fst m"

text \<open>The class invariant of \<^verbatim>\<open>std::map\<close>: keys strictly ascending.\<close>

definition is_map :: "('k::linorder \<times> 'v) list \<Rightarrow> bool" where
  "is_map m = sorted_wrt (<) (keys m)"

text \<open>\<^verbatim>\<open>m.find(k)\<close>, with \<open>None\<close> for \<^verbatim>\<open>end()\<close>.\<close>

definition map_find :: "('k \<times> 'v) list \<Rightarrow> 'k \<Rightarrow> 'v option" where
  "map_find m k = map_of m k"

text \<open>\<^verbatim>\<open>m.insert(std::make_pair(k, v))\<close>: an existing entry is kept.\<close>

fun map_insert :: "'k::linorder \<Rightarrow> 'v \<Rightarrow> ('k \<times> 'v) list \<Rightarrow> ('k \<times> 'v) list" where
  "map_insert k v [] = [(k, v)]"
| "map_insert k v ((k', v') # m) =
     (if k < k' then (k, v) # (k', v') # m
      else if k = k' then (k', v') # m
      else (k', v') # map_insert k v m)"

text \<open>\<^verbatim>\<open>m[k] = v\<close>, and a write through a reference obtained from the map.\<close>

fun map_assign :: "'k::linorder \<Rightarrow> 'v \<Rightarrow> ('k \<times> 'v) list \<Rightarrow> ('k \<times> 'v) list" where
  "map_assign k v [] = [(k, v)]"
| "map_assign k v ((k', v') # m) =
     (if k < k' then (k, v) # (k', v') # m
      else if k = k' then (k, v) # m
      else (k', v') # map_assign k v m)"

text \<open>\<^verbatim>\<open>m.erase(k)\<close>.\<close>

fun map_erase :: "'k \<Rightarrow> ('k \<times> 'v) list \<Rightarrow> ('k \<times> 'v) list" where
  "map_erase k [] = []"
| "map_erase k ((k', v') # m) = (if k = k' then map_erase k m else (k', v') # map_erase k m)"

text \<open>\<^verbatim>\<open>std::set<int>::insert\<close>, as reached through \<^verbatim>\<open>std::inserter\<close>.\<close>

fun set_insert :: "'k::linorder \<Rightarrow> 'k list \<Rightarrow> 'k list" where
  "set_insert k [] = [k]"
| "set_insert k (k' # ks) =
     (if k < k' then k # k' # ks
      else if k = k' then k' # ks
      else k' # set_insert k ks)"

subsection \<open>Opaque collaborators\<close>

text \<open>
  Producers, frames, route consumers and tokens are handles whose contents the stage
  never inspects; they are modelled by their identity. \<^verbatim>\<open>frame_producer::empty()\<close>
  and \<^verbatim>\<open>draw_frame::empty()\<close> are the distinguished values.
\<close>

datatype frame_producer = Empty_producer | Producer nat

datatype draw_frame = Empty_frame | Frame nat

type_synonym write_frame_consumer = nat

type_synonym token = nat

type_synonym tweener = string

datatype frame_consumer_mode = foreground | background | next_producer

datatype error = Exception string

record video_format_desc =
  fps :: real

record interaction_event =
  event_x :: real
  event_y :: real
  event_id :: nat

subsection \<open>Tweened transform and layer\<close>

text \<open>
  Modelled from the spec: \<^verbatim>\<open>tweened_transform\<close> (core/frame/frame_transform.h) is
  not among the sources. Section 3 gives it a source and a destination transform, a
  duration in frames, the frames elapsed and a named easing curve. The transform
  value type is the type variable \<open>'t\<close>.
\<close>

record 't tweened_transform =
  source :: 't
  dest :: 't
  duration :: nat
  frames_elapsed :: nat
  easing :: tweener

datatype play_state = Stopped | Playing | Paused

text \<open>
  Modelled from the spec: \<^verbatim>\<open>layer\<close> (layer.h) is not among the sources. Section 3
  gives a layer a foreground and a background producer, a play state, an optional
  auto-play count-down and its tween.
\<close>

record 't layer =
  foreground_producer :: frame_producer
  background_producer :: frame_producer
  state :: play_state
  auto_play :: "nat option"
  tween :: "'t tweened_transform"

text \<open>
  The member functions of the absent classes that the stage calls are parameters of
  the model, collected in one record: the default transform \<^verbatim>\<open>frame_transform()\<close>,
  the interpolation \<^verbatim>\<open>frame_transform::tween\<close>, \<^verbatim>\<open>translate\<close>, and the
  layer's \<^verbatim>\<open>receive\<close>, \<^verbatim>\<open>receive_background\<close>, \<^verbatim>\<open>has_background\<close>,
  \<^verbatim>\<open>collides\<close>, \<^verbatim>\<open>on_interaction\<close> and playback commands. A call that may throw
  returns a sum with the exception on the left.
\<close>

record 't env =
  default_transform :: 't
  default_tweener :: tweener
  transform_tween :: "nat \<Rightarrow> 't \<Rightarrow> 't \<Rightarrow> nat \<Rightarrow> tweener \<Rightarrow> 't"
  translate :: "real \<Rightarrow> real \<Rightarrow> 't \<Rightarrow> real \<times> real"
  layer_receive :: "video_format_desc \<Rightarrow> 't layer \<Rightarrow> error + ((draw_frame \<times> draw_frame) \<times> 't layer)"
  layer_receive_background :: "'t layer \<Rightarrow> error + (draw_frame \<times> 't layer)"
  layer_has_background :: "'t layer \<Rightarrow> bool"
  layer_collides :: "'t layer \<Rightarrow> real \<Rightarrow> real \<Rightarrow> bool"
  layer_on_interaction :: "'t layer \<Rightarrow> interaction_event \<Rightarrow> error option"
  layer_load :: "frame_producer \<Rightarrow> bool \<Rightarrow> bool \<Rightarrow> 't layer \<Rightarrow> 't layer"
  layer_pause :: "'t layer \<Rightarrow> 't layer"
  layer_resume :: "'t layer \<Rightarrow> 't layer"
  layer_play :: "'t layer \<Rightarrow> 't layer"
  layer_preview :: "'t layer \<Rightarrow> 't layer"
  layer_stop :: "'t layer \<Rightarrow> 't layer"

text \<open>
  Modelled from the spec: the constructor \<^verbatim>\<open>tweened_transform(src, dst, duration,
  tweener)\<close> starts with no frame elapsed (section 4.3, step 4); the default tween has
  source and destination the identity and duration 0 (section 3).
\<close>

definition tweened_transform_new :: "'t \<Rightarrow> 't \<Rightarrow> nat \<Rightarrow> tweener \<Rightarrow> 't tweened_transform" where
  "tweened_transform_new src dst d tw =
     \<lparr>source = src, dest = dst, duration = d, frames_elapsed = 0, easing = tw\<rparr>"

definition tweened_transform_default :: "'t env \<Rightarrow> 't tweened_transform" where
  "tweened_transform_default E =
     tweened_transform_new (default_transform E) (default_transform E) 0 (default_tweener E)"

text \<open>
  Modelled from the spec: \<^verbatim>\<open>fetch()\<close> yields the source interpolated toward the
  destination at \<open>frames_elapsed\<close> of \<open>duration\<close> frames under the easing curve, and
  does not advance (section 3); the interpolation itself is the parameter
  \<open>transform_tween\<close>.
\<close>

definition fetch :: "'t env \<Rightarrow> 't tweened_transform \<Rightarrow> 't" where
  "fetch E tw = transform_tween E (frames_elapsed tw) (source tw) (dest tw) (duration tw) (easing tw)"

text \<open>
  Modelled from the spec: the constructor \<^verbatim>\<open>layer(index)\<close> builds the empty
  placeholder layer: empty producers, stopped, default tween (section 4.3, note).
\<close>

definition layer_new :: "'t env \<Rightarrow> 't layer" where
  "layer_new E =
     \<lparr>foreground_producer = Empty_producer, background_producer = Empty_producer,
      state = Stopped, auto_play = None, tween = tweened_transform_default E\<rparr>"

subsection \<open>The stage\<close>

type_synonym layer_consumer_entry = "frame_consumer_mode \<times> write_frame_consumer"

record 't impl =
  channel_index :: int
  layers :: "(int \<times> 't layer) list"
  layer_consumers :: "(int \<times> (token \<times> layer_consumer_entry) list) list"
  aggregator :: "interaction_event list"

definition impl_new :: "int \<Rightarrow> 't impl" where
  "impl_new ch = \<lparr>channel_index = ch, layers = [], layer_consumers = [], aggregator = []\<rparr>"

text \<open>
  \<^verbatim>\<open>get_layer(index)\<close>: the layer at the index, inserted first when it is absent.
  The C++ returns a reference into the table; the model returns the layer and the
  table it now lives in, and a later write through the reference is a
  \<open>map_assign\<close> at the same index.
\<close>

definition get_layer :: "'t env \<Rightarrow> int \<Rightarrow> 't impl \<Rightarrow> 't layer \<times> 't impl" where
  "get_layer E index s =
     (case map_find (layers s) index of
        None \<Rightarrow> (layer_new E, s\<lparr>layers := map_insert index (layer_new E) (layers s)\<rparr>)
      | Some l \<Rightarrow> (l, s))"

definition put_layer :: "int \<Rightarrow> 't layer \<Rightarrow> 't impl \<Rightarrow> 't impl" where
  "put_layer index l s = s\<lparr>layers := map_assign index l (layers s)\<rparr>"

subsection \<open>Transform commands\<close>

type_synonym 't transform_func_t = "'t \<Rightarrow> 't"

type_synonym 't transform_tuple_t = "int \<times> 't transform_func_t \<times> nat \<times> tweener"

text \<open>One iteration of the loop in \<^verbatim>\<open>apply_transforms\<close>.\<close>

definition apply_transforms_step :: "'t env \<Rightarrow> 't transform_tuple_t \<Rightarrow> 't impl \<Rightarrow> 't impl" where
  "apply_transforms_step E transform s =
     (case transform of (index, f, mix_duration, tw) \<Rightarrow>
        let (layer, s1) = get_layer E index s;
            src = fetch E (tween layer);
            dst = f (dest (tween layer))
        in put_layer index (layer\<lparr>tween := tweened_transform_new src dst mix_duration tw\<rparr>) s1)"

definition apply_transforms_func :: "'t env \<Rightarrow> 't transform_tuple_t list \<Rightarrow> 't impl \<Rightarrow> 't impl" where
  "apply_transforms_func E transforms s = fold (apply_transforms_step E) transforms s"

definition apply_transform_func ::
  "'t env \<Rightarrow> int \<Rightarrow> 't transform_func_t \<Rightarrow> nat \<Rightarrow> tweener \<Rightarrow> 't impl \<Rightarrow> 't impl" where
  "apply_transform_func E index transform mix_duration tw s =
     (let (layer, s1) = get_layer E index s;
          src = fetch E (tween layer);
          dst = transform src
      in put_layer index (layer\<lparr>tween := tweened_transform_new src dst mix_duration tw\<rparr>) s1)"

definition clear_transforms_func :: "'t env \<Rightarrow> int \<Rightarrow> 't impl \<Rightarrow> 't impl" where
  "clear_transforms_func E index s =
     (let (layer, s1) = get_layer E index s
      in put_layer index (layer\<lparr>tween := tweened_transform_default E\<rparr>) s1)"

definition clear_transforms_all_func :: "'t env \<Rightarrow> 't impl \<Rightarrow> 't impl" where
  "clear_transforms_all_func E s =
     s\<lparr>layers := map (\<lambda>(k, l). (k, l\<lparr>tween := tweened_transform_default E\<rparr>)) (layers s)\<rparr>"

definition get_current_transform_func :: "'t env \<Rightarrow> int \<Rightarrow> 't impl \<Rightarrow> 't \<times> 't impl" where
  "get_current_transform_func E index s =
     (let (layer, s1) = get_layer E index s in (fetch E (tween layer), s1))"

subsection \<open>Layer commands\<close>

text \<open>Each closure is \<^verbatim>\<open>get_layer(index).op(...)\<close> for a member function of the layer.\<close>

definition load_func :: "'t env \<Rightarrow> int \<Rightarrow> frame_producer \<Rightarrow> bool \<Rightarrow> bool \<Rightarrow> 't impl \<Rightarrow> 't impl" where
  "load_func E index producer preview auto_play_delta s =
     (let (layer, s1) = get_layer E index s
      in put_layer index (layer_load E producer preview auto_play_delta layer) s1)"

definition pause_func :: "'t env \<Rightarrow> int \<Rightarrow> 't impl \<Rightarrow> 't impl" where
  "pause_func E index s =
     (let (layer, s1) = get_layer E index s in put_layer index (layer_pause E layer) s1)"

definition resume_func :: "'t env \<Rightarrow> int \<Rightarrow> 't impl \<Rightarrow> 't impl" where
  "resume_func E index s =
     (let (layer, s1) = get_layer E index s in put_layer index (layer_resume E layer) s1)"

definition play_func :: "'t env \<Rightarrow> int \<Rightarrow> 't impl \<Rightarrow> 't impl" where
  "play_func E index s =
     (let (layer, s1) = get_layer E index s in put_layer index (layer_play E layer) s1)"

definition preview_func :: "'t env \<Rightarrow> int \<Rightarrow> 't impl \<Rightarrow> 't impl" where
  "preview_func E index s =
     (let (layer, s1) = get_layer E index s in put_layer index (layer_preview E layer) s1)"

definition stop_func :: "'t env \<Rightarrow> int \<Rightarrow> 't impl \<Rightarrow> 't impl" where
  "stop_func E index s =
     (let (layer, s1) = get_layer E index s in put_layer index (layer_stop E layer) s1)"

definition clear_func :: "int \<Rightarrow> 't impl \<Rightarrow> 't impl" where
  "clear_func index s = s\<lparr>layers := map_erase index (layers s)\<rparr>"

definition clear_all_func :: "'t impl \<Rightarrow> 't impl" where
  "clear_all_func s = s\<lparr>layers := []\<rparr>"

text \<open>
  The queries \<^verbatim>\<open>foreground\<close>, \<^verbatim>\<open>background\<close>, \<^verbatim>\<open>info(index)\<close>,
  \<^verbatim>\<open>delay_info(index)\<close> and \<^verbatim>\<open>call\<close> reach their layer through
  \<^verbatim>\<open>get_layer\<close> too; their effect on the tables is that of this closure.
\<close>

definition query_func :: "'t env \<Rightarrow> int \<Rightarrow> 't impl \<Rightarrow> 't impl" where
  "query_func E index s = snd (get_layer E index s)"

subsection \<open>Routes\<close>

text \<open>\<^verbatim>\<open>m[k]\<close> read as a value: the entry, default-constructed first when absent.\<close>

definition map_subscript :: "'k::linorder \<Rightarrow> 'v \<Rightarrow> ('k \<times> 'v) list \<Rightarrow> 'v \<times> ('k \<times> 'v) list" where
  "map_subscript k d m =
     (case map_find m k of None \<Rightarrow> (d, map_insert k d m) | Some v \<Rightarrow> (v, m))"

definition add_layer_consumer_func ::
  "token \<Rightarrow> int \<Rightarrow> frame_consumer_mode \<Rightarrow> write_frame_consumer \<Rightarrow> 't impl \<Rightarrow> 't impl" where
  "add_layer_consumer_func tok layer mode layer_consumer s =
     (let (layer_map, lc) = map_subscript layer [] (layer_consumers s)
      in s\<lparr>layer_consumers := map_assign layer (map_insert tok (mode, layer_consumer) layer_map) lc\<rparr>)"

definition remove_layer_consumer_func :: "token \<Rightarrow> int \<Rightarrow> 't impl \<Rightarrow> 't impl" where
  "remove_layer_consumer_func tok layer s =
     (let (layer_map, lc) = map_subscript layer [] (layer_consumers s);
          layer_map1 = map_erase tok layer_map;
          lc1 = map_assign layer layer_map1 lc
      in if layer_map1 = [] then s\<lparr>layer_consumers := map_erase layer lc1\<rparr>
         else s\<lparr>layer_consumers := lc1\<rparr>)"

subsection \<open>Swaps\<close>

text \<open>
  \<^verbatim>\<open>std::swap(layer.tween(), other_layer.tween())\<close> on two layers held by value.
\<close>

definition swap_tweens :: "'t layer \<times> 't layer \<Rightarrow> 't layer \<times> 't layer" where
  "swap_tweens p = (case p of (l, m) \<Rightarrow> (l\<lparr>tween := tween m\<rparr>, m\<lparr>tween := tween l\<rparr>))"

text \<open>
  The intra-stage \<^verbatim>\<open>swap_layer(index, other_index, swap_transforms)\<close>. When the two
  indices are equal both references name one layer and the writes coincide.
\<close>

definition swap_layer_func :: "'t env \<Rightarrow> int \<Rightarrow> int \<Rightarrow> bool \<Rightarrow> 't impl \<Rightarrow> 't impl" where
  "swap_layer_func E index other_index swap_transforms s =
     (let (layer, s1) = get_layer E index s;
          (other_layer, s2) = get_layer E other_index s1;
          swapped = (other_layer, layer);
          (layer1, other_layer1) = (if \<not> swap_transforms then swap_tweens swapped else swapped)
      in put_layer other_index other_layer1 (put_layer index layer1 s2))"

text \<open>
  The closures of the cross-stage swaps act on two stages, \<open>this\<close> and \<open>other_impl\<close>,
  which are distinct objects when the closure is built. They are written on the pair
  (this stage, other stage).
\<close>

definition swap_layer_other_func ::
  "'t env \<Rightarrow> int \<Rightarrow> int \<Rightarrow> bool \<Rightarrow> 't impl \<times> 't impl \<Rightarrow> 't impl \<times> 't impl" where
  "swap_layer_other_func E index other_index swap_transforms p =
     (case p of (s, other_impl) \<Rightarrow>
        let (my_layer, s1) = get_layer E index s;
            (other_layer, o1) = get_layer E other_index other_impl;
            swapped = (other_layer, my_layer);
            (my_layer1, other_layer1) = (if \<not> swap_transforms then swap_tweens swapped else swapped)
        in (put_layer index my_layer1 s1, put_layer other_index other_layer1 o1))"

text \<open>One iteration of the loop over \<^verbatim>\<open>layer_ids\<close> in \<^verbatim>\<open>swap_layers\<close>.\<close>

definition swap_tween_at :: "'t env \<Rightarrow> int \<Rightarrow> 't impl \<times> 't impl \<Rightarrow> 't impl \<times> 't impl" where
  "swap_tween_at E index p =
     (case p of (s, other_impl) \<Rightarrow>
        let (my_layer, s1) = get_layer E index s;
            (other_layer, o1) = get_layer E index other_impl;
            (my_layer1, other_layer1) = swap_tweens (my_layer, other_layer)
        in (put_layer index my_layer1 s1, put_layer index other_layer1 o1))"

definition swap_layers_func :: "'t env \<Rightarrow> bool \<Rightarrow> 't impl \<times> 't impl \<Rightarrow> 't impl \<times> 't impl" where
  "swap_layers_func E swap_transforms p =
     (case p of (s, other_impl) \<Rightarrow>
        let s1 = s\<lparr>layers := layers other_impl\<rparr>;
            o1 = other_impl\<lparr>layers := layers s\<rparr>
        in if \<not> swap_transforms then
             let layer_ids = fold set_insert (keys (layers o1)) (fold set_insert (keys (layers s1)) [])
             in fold (swap_tween_at E) layer_ids (s1, o1)
           else (s1, o1))"

subsection \<open>Interaction\<close>

text \<open>
  \<^verbatim>\<open>collission_detect(x, y)\<close>: the loop over \<^verbatim>\<open>layers_ | reversed\<close>. The target is
  the transform and the table entry whose layer is the interaction sink.
\<close>

fun collission_detect_loop ::
  "'t env \<Rightarrow> real \<Rightarrow> real \<Rightarrow> (int \<times> 't layer) list \<Rightarrow> ('t \<times> (int \<times> 't layer)) option" where
  "collission_detect_loop E x y [] = None"
| "collission_detect_loop E x y (layer # rest) =
     (let transform = fetch E (tween (snd layer));
          translated = translate E x y transform
      in if fst translated \<ge> 0 \<and> fst translated \<le> 1 \<and> snd translated \<ge> 0 \<and>
            snd translated \<le> 1 \<and> layer_collides E (snd layer) (fst translated) (snd translated)
         then Some (transform, layer)
         else collission_detect_loop E x y rest)"

definition collission_detect :: "'t env \<Rightarrow> real \<Rightarrow> real \<Rightarrow> 't impl \<Rightarrow> ('t \<times> (int \<times> 't layer)) option" where
  "collission_detect E x y s = collission_detect_loop E x y (rev (layers s))"

definition on_interaction_func :: "interaction_event \<Rightarrow> 't impl \<Rightarrow> 't impl" where
  "on_interaction_func event s = s\<lparr>aggregator := aggregator s @ [event]\<rparr>"

subsection \<open>The render pass\<close>

text \<open>
  What a pass has done so far: the stage, the \<^verbatim>\<open>frames\<close> map under construction,
  the frames sent to route consumers, the interaction events delivered (with the index
  of the layer that received them) and the exceptions logged.
\<close>

record 't pass =
  stage :: "'t impl"
  frames :: "(int \<times> draw_frame) list"
  sent :: "(write_frame_consumer \<times> draw_frame) list"
  delivered :: "(interaction_event \<times> int) list"
  logged :: "error list"

text \<open>
  Modelled from the spec: \<^verbatim>\<open>interaction_aggregator::translate_and_send\<close>
  (interaction_aggregator.h) is not among the sources. Section 4.7: for each buffered
  event the hit is computed with the collision callback; the event is delivered to the
  layer hit, and an event without a hit is dropped. The delivery is the layer's
  \<open>layer_on_interaction\<close>, which may throw.
\<close>

fun translate_and_send_events ::
  "'t env \<Rightarrow> interaction_event list \<Rightarrow> 't pass \<Rightarrow> error option \<times> 't pass" where
  "translate_and_send_events E [] ps = (None, ps)"
| "translate_and_send_events E (event # events) ps =
     (case collission_detect E (event_x event) (event_y event) (stage ps) of
        None \<Rightarrow> translate_and_send_events E events ps
      | Some (transform, layer) \<Rightarrow>
          (case layer_on_interaction E (snd layer) event of
             Some e \<Rightarrow> (Some e, ps)
           | None \<Rightarrow>
               translate_and_send_events E events
                 (ps\<lparr>delivered := delivered ps @ [(event, fst layer)]\<rparr>)))"

definition translate_and_send :: "'t env \<Rightarrow> 't pass \<Rightarrow> error option \<times> 't pass" where
  "translate_and_send E ps =
     translate_and_send_events E (aggregator (stage ps))
       (ps\<lparr>stage := (stage ps)\<lparr>aggregator := []\<rparr>\<rparr>)"

text \<open>The frame a route consumer is sent: the body of the inner lambda of \<^verbatim>\<open>draw\<close>.\<close>

definition send_frame ::
  "draw_frame \<Rightarrow> draw_frame \<Rightarrow> bool \<Rightarrow> layer_consumer_entry \<Rightarrow> write_frame_consumer \<times> draw_frame" where
  "send_frame frame_first frame_bg has_bg c =
     (if fst c = background \<or> (fst c = next_producer \<and> has_bg)
      then (snd c, frame_bg)
      else (snd c, frame_first))"

text \<open>
  \<^verbatim>\<open>draw(index, format_desc, frames)\<close>. An exception of \<^verbatim>\<open>receive\<close> or
  \<^verbatim>\<open>receive_background\<close> leaves the function at once; the result carries the
  exception together with everything done before it.
\<close>

definition draw :: "'t env \<Rightarrow> int \<Rightarrow> video_format_desc \<Rightarrow> 't pass \<Rightarrow> error option \<times> 't pass" where
  "draw E index format_desc ps =
     (let (layer, ls) = map_subscript index (layer_new E) (layers (stage ps));
          (consumers, lc) = map_subscript index [] (layer_consumers (stage ps));
          ps1 = ps\<lparr>stage := (stage ps)\<lparr>layers := ls, layer_consumers := lc\<rparr>\<rparr>
      in case layer_receive E format_desc layer of
           Inl e \<Rightarrow> (Some e, ps1)
         | Inr (frame, layer1) \<Rightarrow>
             let ps2 = ps1\<lparr>stage := put_layer index layer1 (stage ps1)\<rparr>
             in if consumers \<noteq> [] then
                  let consumer_it = map snd consumers;
                      any_bg_consumers = list_ex (\<lambda>c. fst c \<noteq> foreground) consumer_it
                  in case (if any_bg_consumers then layer_receive_background E layer1
                           else Inr (Empty_frame, layer1)) of
                       Inl e \<Rightarrow> (Some e, ps2)
                     | Inr (frame_bg, layer2) \<Rightarrow>
                         let has_bg = (if any_bg_consumers then layer_has_background E layer2 else False);
                             ps3 = ps2\<lparr>stage := put_layer index layer2 (stage ps2),
                                       sent := sent ps2 @ map (send_frame (fst frame) frame_bg has_bg) consumer_it\<rparr>
                         in (None, ps3\<lparr>frames := map_assign index (snd frame) (frames ps3)\<rparr>)
                else (None, ps2\<lparr>frames := map_assign index (snd frame) (frames ps2)\<rparr>))"

text \<open>
  \<^verbatim>\<open>tbb::parallel_for_each(indices, draw)\<close>. The indices are distinct keys, so the
  calls touch disjoint entries; the model runs them in the order of \<open>indices\<close> and
  stops at the first exception.
\<close>

fun parallel_for_each_draw ::
  "'t env \<Rightarrow> video_format_desc \<Rightarrow> int list \<Rightarrow> 't pass \<Rightarrow> error option \<times> 't pass" where
  "parallel_for_each_draw E format_desc [] ps = (None, ps)"
| "parallel_for_each_draw E format_desc (index # indices) ps =
     (case draw E index format_desc ps of
        (Some e, ps1) \<Rightarrow> (Some e, ps1)
      | (None, ps1) \<Rightarrow> parallel_for_each_draw E format_desc indices ps1)"

text \<open>The two loops that fill \<open>indices\<close> and pre-seed \<open>frames\<close>.\<close>

type_synonym seed = "(int \<times> draw_frame) list \<times> (int \<times> (token \<times> layer_consumer_entry) list) list \<times> int list"

definition seed_layer :: "int \<times> 't layer \<Rightarrow> seed \<Rightarrow> seed" where
  "seed_layer layer sd =
     (case sd of (fr, lc, indices) \<Rightarrow>
        (map_assign (fst layer) Empty_frame fr,
         snd (map_subscript (fst layer) [] lc),
         indices @ [fst layer]))"

definition seed_consumers :: "int \<times> (token \<times> layer_consumer_entry) list \<Rightarrow> seed \<Rightarrow> seed" where
  "seed_consumers consumers sd =
     (case sd of (fr, lc, indices) \<Rightarrow>
        if snd consumers = [] then sd
        else if fst consumers \<in> set indices then sd
        else (map_assign (fst consumers) Empty_frame fr,
              snd (map_subscript (fst consumers) [] lc),
              indices @ [fst consumers]))"

text \<open>The \<^verbatim>\<open>try\<close> block of \<^verbatim>\<open>operator()\<close>.\<close>

definition try_block :: "'t env \<Rightarrow> video_format_desc \<Rightarrow> 't impl \<Rightarrow> error option \<times> 't pass" where
  "try_block E format_desc s =
     (let sd1 = fold seed_layer (layers s) ([], layer_consumers s, []);
          sd2 = fold seed_consumers (fst (snd sd1)) sd1;
          ps = \<lparr>stage = s\<lparr>layer_consumers := fst (snd sd2)\<rparr>, frames = fst sd2,
                sent = [], delivered = [], logged = []\<rparr>
      in case translate_and_send E ps of
           (Some e, ps1) \<Rightarrow> (Some e, ps1)
         | (None, ps1) \<Rightarrow> parallel_for_each_draw E format_desc (snd (snd sd2)) ps1)"

text \<open>
  \<^verbatim>\<open>operator()(format_desc)\<close>: the \<^verbatim>\<open>try\<close> block and its \<^verbatim>\<open>catch (...)\<close>. The
  value returned to the caller is \<open>frames\<close> of the result; \<open>stage\<close> is the stage
  after the pass.
\<close>

definition operator_call :: "'t env \<Rightarrow> video_format_desc \<Rightarrow> 't impl \<Rightarrow> 't pass" where
  "operator_call E format_desc s =
     (case try_block E format_desc s of
        (None, ps) \<Rightarrow> ps
      | (Some e, ps) \<Rightarrow> ps\<lparr>stage := (stage ps)\<lparr>layers := []\<rparr>, logged := logged ps @ [e]\<rparr>)"

subsection \<open>Executor, completion handles and the public operations\<close>

text \<open>
  Stage objects live in a store and are named by their address, so that the test
  \<^verbatim>\<open>other_impl.get() == this\<close> is a comparison of addresses. A task is a closure
  on the store, or the synchronous \<^verbatim>\<open>invoke\<close> of a task on another executor.
  \<^verbatim>\<open>begin_invoke\<close> hands a task to the executor of a stage and returns the handle
  of the pending task; \<^verbatim>\<open>make_ready_future\<close> returns a handle that is ready and
  stands for no task. \<open>complete\<close> is the store once the handle is ready: the
  task has run, on the store as it was when the command was issued.
\<close>

type_synonym addr = nat

type_synonym 't store = "addr \<Rightarrow> 't impl"

datatype task_priority = high_priority | higher_priority

datatype 'w task = Run "'w \<Rightarrow> 'w" | Invoke addr task_priority "'w task"

datatype 'w future = Ready | Deferred addr task_priority "'w task"

definition make_ready_future :: "'w future" where
  "make_ready_future = Ready"

definition begin_invoke :: "addr \<Rightarrow> 'w task \<Rightarrow> task_priority \<Rightarrow> 'w future" where
  "begin_invoke executor t priority = Deferred executor priority t"

fun run_task :: "'w task \<Rightarrow> 'w \<Rightarrow> 'w" where
  "run_task (Run f) w = f w"
| "run_task (Invoke executor priority t) w = run_task t w"

fun complete :: "'w future \<Rightarrow> 'w \<Rightarrow> 'w" where
  "complete Ready w = w"
| "complete (Deferred executor priority t) w = run_task t w"

text \<open>A closure of one stage, and a closure of two stages, as closures on the store.\<close>

definition on_this :: "addr \<Rightarrow> ('t impl \<Rightarrow> 't impl) \<Rightarrow> 't store \<Rightarrow> 't store" where
  "on_this this f st = st(this := f (st this))"

definition on_both ::
  "addr \<Rightarrow> addr \<Rightarrow> ('t impl \<times> 't impl \<Rightarrow> 't impl \<times> 't impl) \<Rightarrow> 't store \<Rightarrow> 't store" where
  "on_both this other f st =
     (case f (st this, st other) of (s, other_impl) \<Rightarrow> st(this := s, other := other_impl))"

definition apply_transforms :: "'t env \<Rightarrow> addr \<Rightarrow> 't transform_tuple_t list \<Rightarrow> 't store future" where
  "apply_transforms E this transforms =
     begin_invoke this (Run (on_this this (apply_transforms_func E transforms))) high_priority"

definition apply_transform ::
  "'t env \<Rightarrow> addr \<Rightarrow> int \<Rightarrow> 't transform_func_t \<Rightarrow> nat \<Rightarrow> tweener \<Rightarrow> 't store future" where
  "apply_transform E this index transform mix_duration tw =
     begin_invoke this (Run (on_this this (apply_transform_func E index transform mix_duration tw)))
       high_priority"

definition clear_transforms :: "'t env \<Rightarrow> addr \<Rightarrow> int \<Rightarrow> 't store future" where
  "clear_transforms E this index =
     begin_invoke this (Run (on_this this (clear_transforms_func E index))) high_priority"

definition clear_transforms_all :: "'t env \<Rightarrow> addr \<Rightarrow> 't store future" where
  "clear_transforms_all E this =
     begin_invoke this (Run (on_this this (clear_transforms_all_func E))) high_priority"

definition load :: "'t env \<Rightarrow> addr \<Rightarrow> int \<Rightarrow> frame_producer \<Rightarrow> bool \<Rightarrow> bool \<Rightarrow> 't store future" where
  "load E this index producer preview_arg auto_play_arg =
     begin_invoke this (Run (on_this this (load_func E index producer preview_arg auto_play_arg)))
       high_priority"

definition pause :: "'t env \<Rightarrow> addr \<Rightarrow> int \<Rightarrow> 't store future" where
  "pause E this index = begin_invoke this (Run (on_this this (pause_func E index))) high_priority"

definition resume :: "'t env \<Rightarrow> addr \<Rightarrow> int \<Rightarrow> 't store future" where
  "resume E this index = begin_invoke this (Run (on_this this (resume_func E index))) high_priority"

definition play :: "'t env \<Rightarrow> addr \<Rightarrow> int \<Rightarrow> 't store future" where
  "play E this index = begin_invoke this (Run (on_this this (play_func E index))) high_priority"

definition preview :: "'t env \<Rightarrow> addr \<Rightarrow> int \<Rightarrow> 't store future" where
  "preview E this index = begin_invoke this (Run (on_this this (preview_func E index))) high_priority"

definition stop :: "'t env \<Rightarrow> addr \<Rightarrow> int \<Rightarrow> 't store future" where
  "stop E this index = begin_invoke this (Run (on_this this (stop_func E index))) high_priority"

definition clear :: "addr \<Rightarrow> int \<Rightarrow> 't store future" where
  "clear this index = begin_invoke this (Run (on_this this (clear_func index))) high_priority"

definition clear_all :: "addr \<Rightarrow> 't store future" where
  "clear_all this = begin_invoke this (Run (on_this this clear_all_func)) high_priority"

definition query :: "'t env \<Rightarrow> addr \<Rightarrow> int \<Rightarrow> 't store future" where
  "query E this index = begin_invoke this (Run (on_this this (query_func E index))) high_priority"

definition add_layer_consumer ::
  "addr \<Rightarrow> token \<Rightarrow> int \<Rightarrow> frame_consumer_mode \<Rightarrow> write_frame_consumer \<Rightarrow> 't store future" where
  "add_layer_consumer this tok layer mode layer_consumer =
     begin_invoke this (Run (on_this this (add_layer_consumer_func tok layer mode layer_consumer)))
       high_priority"

definition remove_layer_consumer :: "addr \<Rightarrow> token \<Rightarrow> int \<Rightarrow> 't store future" where
  "remove_layer_consumer this tok layer =
     begin_invoke this (Run (on_this this (remove_layer_consumer_func tok layer))) high_priority"

definition on_interaction :: "addr \<Rightarrow> interaction_event \<Rightarrow> 't store future" where
  "on_interaction this event =
     begin_invoke this (Run (on_this this (on_interaction_func event))) high_priority"

text \<open>
  \<^verbatim>\<open>invoke_both(other, func)\<close>: the executor of the stage with the lower channel
  index runs a task that invokes \<open>func\<close> on the other executor.
\<close>

definition invoke_both :: "'t store \<Rightarrow> addr \<Rightarrow> addr \<Rightarrow> 't store task \<Rightarrow> 't store future" where
  "invoke_both st this other func =
     (if channel_index (st other) < channel_index (st this)
      then begin_invoke other (Invoke this high_priority func) high_priority
      else begin_invoke this (Invoke other high_priority func) high_priority)"

definition swap_layers :: "'t env \<Rightarrow> addr \<Rightarrow> addr \<Rightarrow> bool \<Rightarrow> 't store \<Rightarrow> 't store future" where
  "swap_layers E this other swap_transforms st =
     (if other = this then make_ready_future
      else invoke_both st this other (Run (on_both this other (swap_layers_func E swap_transforms))))"

definition swap_layer :: "'t env \<Rightarrow> addr \<Rightarrow> int \<Rightarrow> int \<Rightarrow> bool \<Rightarrow> 't store future" where
  "swap_layer E this index other_index swap_transforms =
     begin_invoke this (Run (on_this this (swap_layer_func E index other_index swap_transforms)))
       high_priority"

text \<open>The overload \<^verbatim>\<open>swap_layer(index, other_index, other, swap_transforms)\<close>.\<close>

definition swap_layer_other ::
  "'t env \<Rightarrow> addr \<Rightarrow> int \<Rightarrow> int \<Rightarrow> addr \<Rightarrow> bool \<Rightarrow> 't store \<Rightarrow> 't store future" where
  "swap_layer_other E this index other_index other swap_transforms st =
     (if other = this then swap_layer E this index other_index swap_transforms
      else invoke_both st this other
             (Run (on_both this other (swap_layer_other_func E index other_index swap_transforms))))"

text \<open>
  \<^verbatim>\<open>stage::execute(func)\<close>: \<open>func\<close> is any closure on the caller's world \<open>'w\<close>; the
  result is the world after the call and the handle returned.
\<close>

definition execute :: "('w \<Rightarrow> 'w) \<Rightarrow> 'w \<Rightarrow> 'w \<times> 'w future" where
  "execute func w = (func w, make_ready_future)"

subsection \<open>A concrete instance\<close>

text \<open>
  An instance of the parameters on which the model can be run: a transform is a
  position on a line, the interpolation is linear, a producer \<open>n\<close> yields the raw
  frame \<open>n\<close> and the transformed frame \<open>n + 100\<close>, and producer 13 throws on
  \<^verbatim>\<open>receive\<close>.
\<close>

definition line_env :: "int env" where
  "line_env =
     \<lparr>default_transform = 0,
      default_tweener = ''linear'',
      transform_tween = (\<lambda>t src dst d tw. if d = 0 then dst else src + (dst - src) * int t div int d),
      translate = (\<lambda>x y tr. (x - of_int tr, y)),
      layer_receive = (\<lambda>fd l.
        case foreground_producer l of
          Empty_producer \<Rightarrow> Inr ((Empty_frame, Empty_frame), l)
        | Producer n \<Rightarrow>
            if n = 13 then Inl (Exception ''receive'')
            else Inr ((Frame n, Frame (n + 100)), l)),
      layer_receive_background = (\<lambda>l.
        case background_producer l of
          Empty_producer \<Rightarrow> Inr (Empty_frame, l)
        | Producer n \<Rightarrow> Inr (Frame n, l)),
      layer_has_background = (\<lambda>l. background_producer l \<noteq> Empty_producer),
      layer_collides = (\<lambda>l x y. foreground_producer l \<noteq> Empty_producer),
      layer_on_interaction = (\<lambda>l ev. None),
      layer_load = (\<lambda>p pv ap l.
        if pv then l\<lparr>foreground_producer := p, background_producer := Empty_producer, state := Paused\<rparr>
        else l\<lparr>background_producer := p\<rparr>),
      layer_pause = (\<lambda>l. l\<lparr>state := Paused\<rparr>),
      layer_resume = (\<lambda>l. l\<lparr>state := Playing\<rparr>),
      layer_play = (\<lambda>l.
        if background_producer l \<noteq> Empty_producer
        then l\<lparr>foreground_producer := background_producer l, background_producer := Empty_producer,
               state := Playing\<rparr>
        else l\<lparr>state := Playing\<rparr>),
      layer_preview = (\<lambda>l.
        if background_producer l \<noteq> Empty_producer
        then l\<lparr>foreground_producer := background_producer l, background_producer := Empty_producer,
               state := Paused\<rparr>
        else l),
      layer_stop = (\<lambda>l. l\<lparr>state := Stopped\<rparr>)\<rparr>"

text \<open>A playing layer of the instance, with the given producers and tween.\<close>

definition line_layer :: "frame_producer \<Rightarrow> frame_producer \<Rightarrow> int tweened_transform \<Rightarrow> int layer" where
  "line_layer fg bg tw =
     \<lparr>foreground_producer = fg, background_producer = bg, state = Playing, auto_play = None, tween = tw\<rparr>"

text \<open>A stage whose layer 0 is half way through a two-frame tween from 0 to 10.\<close>

definition stage_mid_tween :: "int impl" where
  "stage_mid_tween =
     \<lparr>channel_index = 1,
      layers = [(0, line_layer (Producer 1) Empty_producer
                     \<lparr>source = 0, dest = 10, duration = 2, frames_elapsed = 1, easing = ''linear''\<rparr>)],
      layer_consumers = [],
      aggregator = []\<rparr>"

subsection \<open>Reachable stages\<close>

text \<open>
  The stages reached from a newly constructed one by \<^verbatim>\<open>add_layer_consumer\<close> (add
  route), \<^verbatim>\<open>load\<close> and the two \<^verbatim>\<open>clear\<close> commands, each taking effect when its
  closure runs on the executor.
\<close>

inductive routed_loaded_cleared :: "'t env \<Rightarrow> 't impl \<Rightarrow> bool" for E :: "'t env" where
  new_stage: "routed_loaded_cleared E (impl_new ch)"
| add_route: "routed_loaded_cleared E s \<Longrightarrow>
    routed_loaded_cleared E (add_layer_consumer_func tok layer mode layer_consumer s)"
| load_layer: "routed_loaded_cleared E s \<Longrightarrow>
    routed_loaded_cleared E (load_func E index producer preview_arg auto_play_arg s)"
| clear_layer: "routed_loaded_cleared E s \<Longrightarrow> routed_loaded_cleared E (clear_func index s)"
| clear_layers: "routed_loaded_cleared E s \<Longrightarrow> routed_loaded_cleared E (clear_all_func s)"

text \<open>A stage of the instance with layers 1 and 3 and a route on index 5.\<close>

definition stage_routed :: "int impl" where
  "stage_routed =
     load_func line_env 3 (Producer 3) False False
       (add_layer_consumer_func 7 5 foreground 9
         (load_func line_env 1 (Producer 1) True False (impl_new 1)))"

text \<open>
  A stage of the instance whose layer 0 throws on \<^verbatim>\<open>receive\<close>, with a second layer
  and a route on the layerless index 5.
\<close>

definition stage_throwing :: "int impl" where
  "stage_throwing =
     \<lparr>channel_index = 1,
      layers = [(0, line_layer (Producer 13) Empty_producer (tweened_transform_default line_env)),
                (2, line_layer (Producer 2) Empty_producer (tweened_transform_default line_env))],
      layer_consumers = [(5, [(7, (foreground, 9))])],
      aggregator = []\<rparr>"

text \<open>
  A pass state of the instance in front of \<^verbatim>\<open>draw(0, ...)\<close>: layer 0 plays producer 1
  with producer 2 staged, and has one route of each mode.
\<close>

definition pass_fan_out :: "int pass" where
  "pass_fan_out =
     \<lparr>stage = \<lparr>channel_index = 1,
                layers = [(0, line_layer (Producer 1) (Producer 2) (tweened_transform_default line_env))],
                layer_consumers = [(0, [(1, (foreground, 10)), (2, (background, 11)),
                                        (3, (next_producer, 12))])],
                aggregator = []\<rparr>,
      frames = [(0, Empty_frame)], sent = [], delivered = [], logged = []\<rparr>"

subsection \<open>The hit test in the words of the specification\<close>

text \<open>
  Section 4.7: a layer is hit at \<open>(x, y)\<close> when the point, projected through the
  layer's current transform, lies in the unit square and the layer's producer reports
  a collision at the projected point.
\<close>

definition hit_test :: "'t env \<Rightarrow> real \<Rightarrow> real \<Rightarrow> 't layer \<Rightarrow> bool" where
  "hit_test E x y l =
     (let p = translate E x y (fetch E (tween l))
      in 0 \<le> fst p \<and> fst p \<le> 1 \<and> 0 \<le> snd p \<and> snd p \<le> 1 \<and> layer_collides E l (fst p) (snd p))"

text \<open>
  What the flush delivers for one event: the event and the index of the topmost layer
  hit, or nothing.
\<close>

definition delivery :: "'t env \<Rightarrow> 't impl \<Rightarrow> interaction_event \<Rightarrow> (interaction_event \<times> int) option" where
  "delivery E s event =
     (case find (\<lambda>layer. hit_test E (event_x event) (event_y event) (snd layer)) (rev (layers s)) of
        None \<Rightarrow> None
      | Some layer \<Rightarrow> Some (event, fst layer))"

text \<open>
  A stage of the instance with layers 1, 3 and 5, all covering the point
  \<open>(1/2, 1/2)\<close>, with one buffered event at that point.
\<close>

definition stage_stacked :: "int impl" where
  "stage_stacked =
     \<lparr>channel_index = 1,
      layers = [(1, line_layer (Producer 1) Empty_producer (tweened_transform_default line_env)),
                (3, line_layer (Producer 3) Empty_producer (tweened_transform_default line_env)),
                (5, line_layer (Producer 5) Empty_producer (tweened_transform_default line_env))],
      layer_consumers = [],
      aggregator = [\<lparr>event_x = 1 / 2, event_y = 1 / 2, event_id = 0\<rparr>]\<rparr>"

section \<open>Properties\<close>

subsection \<open>The ordered tables\<close>

lemma keys_Nil: "keys [] = []"
  by (simp add: keys_def)

lemma keys_Cons: "keys (a # m) = fst a # keys m"
  by (simp add: keys_def)

lemma is_map_Cons: "is_map (a # m) \<longleftrightarrow> (\<forall>j \<in> set (keys m). fst a < j) \<and> is_map m"
  unfolding is_map_def keys_def by simp

lemma is_map_Nil: "is_map []"
  by (simp add: is_map_def keys_def)

lemma set_keys_map_insert: "set (keys (map_insert k v m)) = insert k (set (keys m))"
proof (induction m)
  case Nil
  show ?case by (simp add: keys_Nil keys_Cons)
next
  case (Cons a m)
  obtain i w where a: "a = (i, w)" by (cases a)
  show ?case using Cons.IH by (simp add: a keys_Cons insert_commute)
qed

lemma set_keys_map_assign: "set (keys (map_assign k v m)) = insert k (set (keys m))"
proof (induction m)
  case Nil
  show ?case by (simp add: keys_Nil keys_Cons)
next
  case (Cons a m)
  obtain i w where a: "a = (i, w)" by (cases a)
  show ?case using Cons.IH by (simp add: a keys_Cons insert_commute)
qed

lemma set_keys_map_erase: "set (keys (map_erase k m)) = set (keys m) - {k}"
proof (induction m)
  case Nil
  show ?case by (simp add: keys_Nil)
next
  case (Cons a m)
  obtain i w where a: "a = (i, w)" by (cases a)
  show ?case using Cons.IH by (simp add: a keys_Cons insert_Diff_if)
qed

lemma is_map_map_insert: "is_map m \<Longrightarrow> is_map (map_insert k v m)"
proof (induction m)
  case Nil
  then show ?case by (simp add: is_map_Cons is_map_Nil keys_Nil)
next
  case (Cons a m)
  have m: "is_map m" and a: "\<forall>j\<in>set (keys m). fst a < j"
    using Cons.prems by (simp_all add: is_map_Cons)
  obtain i w where aw: "a = (i, w)" by (cases a)
  consider "k < i" | "k = i" | "i < k" by (rule linorder_cases)
  then show ?case
  proof cases
    case 1
    have "k < j" if "j \<in> set (keys m)" for j
      using that a aw 1 order.strict_trans[of k i j] by simp
    then have "\<forall>j\<in>set (keys (a # m)). k < j"
      using 1 aw by (simp add: keys_Cons)
    then show ?thesis using 1 aw Cons.prems by (simp add: is_map_Cons)
  next
    case 2
    then show ?thesis using aw Cons.prems by simp
  next
    case 3
    then have "map_insert k v (a # m) = a # map_insert k v m"
      using aw less_not_sym[of i k] less_imp_neq[of i k] by simp
    moreover have "\<forall>j\<in>set (keys (map_insert k v m)). fst a < j"
      using 3 a aw by (simp add: set_keys_map_insert)
    ultimately show ?thesis using Cons.IH[OF m] by (simp add: is_map_Cons)
  qed
qed

lemma is_map_map_assign: "is_map m \<Longrightarrow> is_map (map_assign k v m)"
proof (induction m)
  case Nil
  then show ?case by (simp add: is_map_Cons is_map_Nil keys_Nil)
next
  case (Cons a m)
  have m: "is_map m" and a: "\<forall>j\<in>set (keys m). fst a < j"
    using Cons.prems by (simp_all add: is_map_Cons)
  obtain i w where aw: "a = (i, w)" by (cases a)
  consider "k < i" | "k = i" | "i < k" by (rule linorder_cases)
  then show ?case
  proof cases
    case 1
    have "k < j" if "j \<in> set (keys m)" for j
      using that a aw 1 order.strict_trans[of k i j] by simp
    then have "\<forall>j\<in>set (keys (a # m)). k < j"
      using 1 aw by (simp add: keys_Cons)
    then show ?thesis using 1 aw Cons.prems by (simp add: is_map_Cons)
  next
    case 2
    then show ?thesis using aw a m by (simp add: is_map_Cons)
  next
    case 3
    then have "map_assign k v (a # m) = a # map_assign k v m"
      using aw less_not_sym[of i k] less_imp_neq[of i k] by simp
    moreover have "\<forall>j\<in>set (keys (map_assign k v m)). fst a < j"
      using 3 a aw by (simp add: set_keys_map_assign)
    ultimately show ?thesis using Cons.IH[OF m] by (simp add: is_map_Cons)
  qed
qed

lemma is_map_map_erase: "is_map m \<Longrightarrow> is_map (map_erase k m)"
proof (induction m)
  case Nil
  then show ?case by simp
next
  case (Cons a m)
  obtain i w where aw: "a = (i, w)" by (cases a)
  show ?case using Cons by (auto simp: aw is_map_Cons set_keys_map_erase)
qed

lemma map_find_Nil: "map_find [] k = None"
  by (simp add: map_find_def)

lemma map_find_Cons: "map_find (a # m) k = (if k = fst a then Some (snd a) else map_find m k)"
  by (cases a) (simp add: map_find_def)

lemma map_find_None_iff: "map_find m k = None \<longleftrightarrow> k \<notin> set (keys m)"
  by (simp add: map_find_def keys_def map_of_eq_None_iff)

lemma map_find_map_assign: "map_find (map_assign k v m) j = (if j = k then Some v else map_find m j)"
proof (induction m)
  case Nil
  show ?case by (simp add: map_find_Cons map_find_Nil)
next
  case (Cons a m)
  obtain i w where aw: "a = (i, w)" by (cases a)
  show ?case using Cons.IH by (auto simp: aw map_find_Cons)
qed

lemma map_find_map_erase: "map_find (map_erase k m) j = (if j = k then None else map_find m j)"
proof (induction m)
  case Nil
  show ?case by (simp add: map_find_Nil)
next
  case (Cons a m)
  obtain i w where aw: "a = (i, w)" by (cases a)
  show ?case using Cons.IH by (auto simp: aw map_find_Cons)
qed

lemma map_find_map_insert_absent:
  "k \<notin> set (keys m) \<Longrightarrow> map_find (map_insert k v m) j = (if j = k then Some v else map_find m j)"
proof (induction m)
  case Nil
  show ?case by (simp add: map_find_Cons map_find_Nil)
next
  case (Cons a m)
  obtain i w where aw: "a = (i, w)" by (cases a)
  have "k \<noteq> i" and "k \<notin> set (keys m)" using Cons.prems aw by (simp_all add: keys_Cons)
  then show ?case using Cons.IH by (auto simp: aw map_find_Cons)
qed

lemma map_insert_present: "is_map m \<Longrightarrow> k \<in> set (keys m) \<Longrightarrow> map_insert k v m = m"
proof (induction m)
  case Nil
  then show ?case by (simp add: keys_Nil)
next
  case (Cons a m)
  obtain i w where aw: "a = (i, w)" by (cases a)
  have m: "is_map m" and a: "\<forall>j\<in>set (keys m). i < j"
    using Cons.prems(1) aw by (simp_all add: is_map_Cons)
  show ?case
  proof (cases "k = i")
    case True
    then show ?thesis using aw by simp
  next
    case False
    then have km: "k \<in> set (keys m)" using Cons.prems(2) aw by (simp add: keys_Cons)
    then have "i < k" using a by simp
    then have "\<not> k < i" by (rule less_not_sym)
    then show ?thesis using False aw Cons.IH[OF m km] by simp
  qed
qed

lemma map_find_map_insert:
  "is_map m \<Longrightarrow> map_find (map_insert k v m) j =
     (if j = k then (case map_find m k of None \<Rightarrow> Some v | Some w \<Rightarrow> Some w) else map_find m j)"
proof (cases "k \<in> set (keys m)")
  case True
  assume "is_map m"
  then have "map_insert k v m = m" using True by (rule map_insert_present)
  moreover obtain w where "map_find m k = Some w"
    using True map_find_None_iff[of m k] by (cases "map_find m k") simp_all
  ultimately show ?thesis by simp
next
  case False
  then have "map_find m k = None" by (simp add: map_find_None_iff)
  then show ?thesis using False by (simp add: map_find_map_insert_absent)
qed

lemma is_map_distinct: "is_map m \<Longrightarrow> distinct (map fst m)"
  by (simp add: is_map_def keys_def strict_sorted_iff)

lemma map_find_Some_iff: "is_map m \<Longrightarrow> map_find m k = Some v \<longleftrightarrow> (k, v) \<in> set m"
  by (simp add: map_find_def is_map_distinct)

lemma map_find_less: "is_map (a # m) \<Longrightarrow> k < fst a \<Longrightarrow> map_find (a # m) k = None"
proof -
  assume m: "is_map (a # m)" and k: "k < fst a"
  have "k \<noteq> fst a" using k by (rule less_imp_neq)
  moreover have "k \<notin> set (keys m)"
  proof
    assume "k \<in> set (keys m)"
    then have "fst a < k" using m by (simp add: is_map_Cons)
    then show False using k less_not_sym by blast
  qed
  ultimately show ?thesis by (simp add: map_find_None_iff keys_Cons)
qed

lemma map_assign_same: "is_map m \<Longrightarrow> map_find m k = Some v \<Longrightarrow> map_assign k v m = m"
proof (induction m)
  case Nil
  then show ?case by (simp add: map_find_Nil)
next
  case (Cons a m)
  obtain i w where aw: "a = (i, w)" by (cases a)
  have m: "is_map m" using Cons.prems(1) by (simp add: is_map_Cons)
  have nk: "\<not> k < i"
  proof
    assume "k < i"
    then have "map_find (a # m) k = None" using Cons.prems(1) aw map_find_less[of a m k] by simp
    then show False using Cons.prems(2) by simp
  qed
  show ?case
  proof (cases "k = i")
    case True
    then show ?thesis using Cons.prems(2) aw by (simp add: map_find_Cons)
  next
    case False
    then have "map_find m k = Some v" using Cons.prems(2) aw by (simp add: map_find_Cons)
    then show ?thesis using False nk aw Cons.IH[OF m] by simp
  qed
qed

lemma is_map_ext:
  "is_map m \<Longrightarrow> is_map n \<Longrightarrow> (\<And>k. map_find m k = map_find n k) \<Longrightarrow> m = n"
proof (induction m arbitrary: n)
  case Nil
  have "keys n = []"
  proof (cases n)
    case Nil
    then show ?thesis by (simp add: keys_Nil)
  next
    case (Cons b n')
    have "map_find n (fst b) = Some (snd b)" using Cons by (simp add: map_find_Cons)
    then show ?thesis using Nil.prems(3)[of "fst b"] by (simp add: map_find_Nil)
  qed
  then show ?case by (simp add: keys_def)
next
  case (Cons a m)
  have m: "is_map m" and am: "fst a \<notin> set (keys m)"
    using Cons.prems(1) by (auto simp: is_map_Cons)
  show ?case
  proof (cases n)
    case Nil
    then show ?thesis using Cons.prems(3)[of "fst a"] by (simp add: map_find_Cons map_find_Nil)
  next
    case (Cons b n')
    have n': "is_map n'" and bn: "fst b \<notin> set (keys n')"
      using Cons.prems(2) Cons by (auto simp: is_map_Cons)
    have ij: "fst a = fst b"
    proof (rule ccontr)
      assume ne: "fst a \<noteq> fst b"
      consider "fst a < fst b" | "fst b < fst a" using ne by (rule linorder_neqE)
      then show False
      proof cases
        case 1
        then have "map_find n (fst a) = None"
          using Cons Cons.prems(2) map_find_less[of b n' "fst a"] by simp
        then show False using Cons.prems(3)[of "fst a"] by (simp add: map_find_Cons)
      next
        case 2
        then have "map_find (a # m) (fst b) = None"
          using Cons.prems(1) map_find_less[of a m "fst b"] by simp
        then show False using Cons.prems(3)[of "fst b"] Cons by (simp add: map_find_Cons)
      qed
    qed
    have wu: "snd a = snd b" using Cons.prems(3)[of "fst a"] Cons ij by (simp add: map_find_Cons)
    have "map_find m k = map_find n' k" for k
    proof (cases "k = fst a")
      case True
      then have "map_find m k = None" and "map_find n' k = None"
        using am bn ij by (simp_all add: map_find_None_iff)
      then show ?thesis by simp
    next
      case False
      then show ?thesis using Cons.prems(3)[of k] Cons ij by (simp add: map_find_Cons)
    qed
    then have "m = n'" using Cons.IH[OF m n'] by blast
    then show ?thesis using Cons ij wu by (simp add: prod_eq_iff)
  qed
qed

lemma map_subscript_snd: "is_map m \<Longrightarrow> snd (map_subscript k d m) = map_insert k d m"
proof (cases "map_find m k")
  case None
  then show ?thesis by (simp add: map_subscript_def)
next
  case (Some w)
  assume "is_map m"
  moreover have "k \<in> set (keys m)" using Some map_find_None_iff[of m k] by simp
  ultimately have "map_insert k d m = m" by (rule map_insert_present)
  then show ?thesis using Some by (simp add: map_subscript_def)
qed

lemma map_subscript_fst:
  "fst (map_subscript k d m) = (case map_find m k of None \<Rightarrow> d | Some v \<Rightarrow> v)"
  by (simp add: map_subscript_def split: option.splits)

lemma map_find_map_subscript:
  "map_find (snd (map_subscript k d m)) j =
     (if j = k then Some (fst (map_subscript k d m)) else map_find m j)"
proof (cases "map_find m k")
  case None
  then have "k \<notin> set (keys m)" by (simp add: map_find_None_iff)
  then show ?thesis using None by (simp add: map_subscript_def map_find_map_insert_absent)
next
  case (Some w)
  then show ?thesis by (simp add: map_subscript_def)
qed

lemma is_map_map_subscript: "is_map m \<Longrightarrow> is_map (snd (map_subscript k d m))"
  by (simp add: map_subscript_snd is_map_map_insert)

lemma set_keys_map_subscript: "set (keys (snd (map_subscript k d m))) = insert k (set (keys m))"
proof (cases "map_find m k")
  case None
  then show ?thesis by (simp add: map_subscript_def set_keys_map_insert)
next
  case (Some v)
  then have "k \<in> set (keys m)" using map_find_None_iff[of m k] by simp
  then show ?thesis using Some by (simp add: map_subscript_def insert_absorb)
qed

lemma map_subscript_present: "k \<in> set (keys m) \<Longrightarrow> snd (map_subscript k d m) = m"
  using map_find_None_iff[of m k] by (cases "map_find m k") (simp_all add: map_subscript_def)

subsection \<open>Layers and transform commands\<close>

lemma get_layer_subscript:
  "get_layer E index s =
     (fst (map_subscript index (layer_new E) (layers s)),
      s\<lparr>layers := snd (map_subscript index (layer_new E) (layers s))\<rparr>)"
  by (cases "map_find (layers s) index") (simp_all add: get_layer_def map_subscript_def)

lemma map_find_get_layer:
  "map_find (layers (snd (get_layer E index s))) j =
     (if j = index then Some (fst (get_layer E index s)) else map_find (layers s) j)"
  by (simp add: get_layer_subscript map_find_map_subscript)

lemma fst_get_layer:
  "fst (get_layer E index s) = (case map_find (layers s) index of None \<Rightarrow> layer_new E | Some l \<Rightarrow> l)"
  by (simp add: get_layer_def split: option.splits)

lemma set_keys_get_layer:
  "set (keys (layers (snd (get_layer E index s)))) = insert index (set (keys (layers s)))"
  by (simp add: get_layer_subscript set_keys_map_subscript)

lemma is_map_get_layer:
  "is_map (layers s) \<Longrightarrow> is_map (layers (snd (get_layer E index s)))"
  by (simp add: get_layer_subscript is_map_map_subscript)

lemma get_layer_other_fields:
  "layer_consumers (snd (get_layer E index s)) = layer_consumers s"
  "channel_index (snd (get_layer E index s)) = channel_index s"
  "aggregator (snd (get_layer E index s)) = aggregator s"
  by (simp_all add: get_layer_subscript)

lemma put_layer_fields:
  "layers (put_layer index l s) = map_assign index l (layers s)"
  "layer_consumers (put_layer index l s) = layer_consumers s"
  "channel_index (put_layer index l s) = channel_index s"
  "aggregator (put_layer index l s) = aggregator s"
  by (simp_all add: put_layer_def)

lemma apply_transform_func_installs:
  "map_find (layers (apply_transform_func E index f d tw s)) index =
     Some ((fst (get_layer E index s))
       \<lparr>tween := tweened_transform_new (fetch E (tween (fst (get_layer E index s))))
           (f (fetch E (tween (fst (get_layer E index s))))) d tw\<rparr>)"
  by (simp add: apply_transform_func_def put_layer_def map_find_map_assign Let_def split: prod.splits)

lemma apply_transforms_step_installs:
  "map_find (layers (apply_transforms_step E (index, f, d, tw) s)) index =
     Some ((fst (get_layer E index s))
       \<lparr>tween := tweened_transform_new (fetch E (tween (fst (get_layer E index s))))
           (f (dest (tween (fst (get_layer E index s))))) d tw\<rparr>)"
  by (simp add: apply_transforms_step_def put_layer_def map_find_map_assign Let_def split: prod.splits)

text \<open>
  C1. \<^verbatim>\<open>apply_transform\<close> and \<^verbatim>\<open>apply_transforms\<close> are claimed to install the same
  tween, with destination \<open>f\<close> of the previous destination. On a layer half way
  through a tween from 0 to 10 the fetched transform is 5; with \<open>f t = t + 1\<close> the
  single-command path installs the destination \<open>f 5 = 6\<close>, computed from the fetched
  source, while the batch path installs \<open>f 10 = 11\<close>. Source, duration, easing and
  the reset of the elapsed frames agree on both paths.
\<close>

theorem apply_transform_dest_from_fetch:
  "fetch line_env (tween (fst (get_layer line_env 0 stage_mid_tween))) = 5 \<and>
   dest (tween (fst (get_layer line_env 0 stage_mid_tween))) = 10 \<and>
   map (\<lambda>(k, l). (k, tween l))
     (layers (apply_transform_func line_env 0 (\<lambda>t. t + 1) 3 ''linear'' stage_mid_tween))
     = [(0, \<lparr>source = 5, dest = 6, duration = 3, frames_elapsed = 0, easing = ''linear''\<rparr>)] \<and>
   map (\<lambda>(k, l). (k, tween l))
     (layers (apply_transforms_func line_env [(0, (\<lambda>t. t + 1), 3, ''linear'')] stage_mid_tween))
     = [(0, \<lparr>source = 5, dest = 11, duration = 3, frames_elapsed = 0, easing = ''linear''\<rparr>)]"
  by (simp add: apply_transform_func_def apply_transforms_func_def apply_transforms_step_def
      get_layer_def put_layer_def map_find_def stage_mid_tween_def line_layer_def fetch_def
      line_env_def tweened_transform_new_def Let_def)

subsection \<open>The render pass\<close>

lemma seed_layer_pair:
  "seed_layer l (fr, lc, ix) =
     (map_assign (fst l) Empty_frame fr, snd (map_subscript (fst l) [] lc), ix @ [fst l])"
  by (simp add: seed_layer_def)

lemma fold_seed_layer:
  "is_map lc \<Longrightarrow> fold seed_layer ls (fr, lc, ix) = (fr', lc', ix') \<Longrightarrow>
     ix' = ix @ keys ls \<and> set (keys fr') = set (keys fr) \<union> set (keys ls) \<and> is_map lc' \<and>
     (\<forall>k. map_find lc' k =
        (case map_find lc k of Some cs \<Rightarrow> Some cs
         | None \<Rightarrow> if k \<in> set (keys ls) then Some [] else None))"
proof (induction ls arbitrary: fr lc ix)
  case Nil
  then show ?case by (simp add: keys_Nil split: option.splits)
next
  case (Cons l ls)
  let ?lc1 = "snd (map_subscript (fst l) [] lc)"
  have step: "fold seed_layer ls (map_assign (fst l) Empty_frame fr, ?lc1, ix @ [fst l]) = (fr', lc', ix')"
    using Cons.prems(2) by (simp add: seed_layer_pair)
  have m1: "is_map ?lc1" using Cons.prems(1) by (rule is_map_map_subscript)
  note IH = Cons.IH[OF m1 step]
  have f1: "map_find ?lc1 k =
      (if k = fst l then (case map_find lc k of None \<Rightarrow> Some [] | Some cs \<Rightarrow> Some cs)
       else map_find lc k)" for k
    by (simp add: map_find_map_subscript map_subscript_fst split: option.splits)
  have a: "ix' = ix @ keys (l # ls)" using IH by (simp add: keys_Cons)
  have b: "set (keys fr') = set (keys fr) \<union> set (keys (l # ls))"
    using IH by (simp add: keys_Cons set_keys_map_assign)
  have c: "is_map lc'" using IH by simp
  have d: "map_find lc' k =
        (case map_find lc k of Some cs \<Rightarrow> Some cs
         | None \<Rightarrow> if k \<in> set (keys (l # ls)) then Some [] else None)" for k
  proof -
    have "map_find lc' k =
        (case map_find ?lc1 k of Some cs \<Rightarrow> Some cs
         | None \<Rightarrow> if k \<in> set (keys ls) then Some [] else None)"
      using IH by simp
    then show ?thesis by (simp add: f1 keys_Cons split: option.splits)
  qed
  show ?case using a b c d by blast
qed

lemma fold_seed_consumers:
  "set (keys es) \<subseteq> set (keys lc) \<Longrightarrow> set (keys fr) = set ix \<Longrightarrow>
   fold seed_consumers es (fr, lc, ix) = (fr', lc', ix') \<Longrightarrow>
     lc' = lc \<and> set (keys fr') = set ix' \<and>
     set ix' = set ix \<union> fst ` {e \<in> set es. snd e \<noteq> []}"
proof (induction es arbitrary: fr ix)
  case Nil
  then show ?case by simp
next
  case (Cons e es)
  have sub: "set (keys es) \<subseteq> set (keys lc)" and e: "fst e \<in> set (keys lc)"
    using Cons.prems(1) by (simp_all add: keys_Cons)
  show ?case
  proof (cases "snd e = [] \<or> fst e \<in> set ix")
    case True
    then have "seed_consumers e (fr, lc, ix) = (fr, lc, ix)"
      by (auto simp: seed_consumers_def)
    then have "fold seed_consumers es (fr, lc, ix) = (fr', lc', ix')"
      using Cons.prems(3) by simp
    note IH = Cons.IH[OF sub Cons.prems(2) this]
    have "set ix \<union> fst ` {x \<in> set (e # es). snd x \<noteq> []} =
          set ix \<union> fst ` {x \<in> set es. snd x \<noteq> []}"
      using True by force
    then show ?thesis using IH by simp
  next
    case False
    then have "seed_consumers e (fr, lc, ix) = (map_assign (fst e) Empty_frame fr, lc, ix @ [fst e])"
      using e by (simp add: seed_consumers_def map_subscript_present)
    then have f: "fold seed_consumers es (map_assign (fst e) Empty_frame fr, lc, ix @ [fst e]) = (fr', lc', ix')"
      using Cons.prems(3) by simp
    have k: "set (keys (map_assign (fst e) Empty_frame fr)) = set (ix @ [fst e])"
      using Cons.prems(2) by (simp add: set_keys_map_assign)
    note IH = Cons.IH[OF sub k f]
    have "fst ` {x \<in> set (e # es). snd x \<noteq> []} =
          insert (fst e) (fst ` {x \<in> set es. snd x \<noteq> []})"
      using False by force
    then show ?thesis using IH by simp
  qed
qed

lemma translate_and_send_events_keeps:
  "translate_and_send_events E evs ps = (r, ps') \<Longrightarrow>
     stage ps' = stage ps \<and> frames ps' = frames ps \<and> sent ps' = sent ps \<and> logged ps' = logged ps"
proof (induction evs arbitrary: ps)
  case Nil
  then show ?case by simp
next
  case (Cons ev evs)
  show ?case
  proof (cases "collission_detect E (event_x ev) (event_y ev) (stage ps)")
    case None
    then have "translate_and_send_events E evs ps = (r, ps')" using Cons.prems by simp
    then show ?thesis by (rule Cons.IH)
  next
    case (Some hit)
    obtain tr layer where hit: "hit = (tr, layer)" by (cases hit)
    show ?thesis
    proof (cases "layer_on_interaction E (snd layer) ev")
      case None
      then have "translate_and_send_events E evs (ps\<lparr>delivered := delivered ps @ [(ev, fst layer)]\<rparr>) = (r, ps')"
        using Cons.prems Some hit by simp
      from Cons.IH[OF this] show ?thesis by simp
    next
      case (Some e)
      then have "ps' = ps"
        using Cons.prems \<open>collission_detect E (event_x ev) (event_y ev) (stage ps) = Some hit\<close> hit
        by simp
      then show ?thesis by simp
    qed
  qed
qed

lemma translate_and_send_keeps:
  "translate_and_send E ps = (r, ps') \<Longrightarrow>
     stage ps' = (stage ps)\<lparr>aggregator := []\<rparr> \<and> frames ps' = frames ps \<and> sent ps' = sent ps \<and>
     logged ps' = logged ps"
  using translate_and_send_events_keeps[of E "aggregator (stage ps)"
      "ps\<lparr>stage := (stage ps)\<lparr>aggregator := []\<rparr>\<rparr>" r ps']
  by (simp add: translate_and_send_def)

text \<open>The four ways through \<^verbatim>\<open>draw\<close>.\<close>

lemma draw_cases:
  fixes E :: "'t env" and ps :: "'t pass" and index :: int and fd :: video_format_desc
  defines "L \<equiv> fst (map_subscript index (layer_new E) (layers (stage ps)))"
    and "ls \<equiv> snd (map_subscript index (layer_new E) (layers (stage ps)))"
    and "cs \<equiv> fst (map_subscript index [] (layer_consumers (stage ps)))"
    and "lc \<equiv> snd (map_subscript index [] (layer_consumers (stage ps)))"
  defines "s1 \<equiv> (stage ps)\<lparr>layers := ls, layer_consumers := lc\<rparr>"
  defines "any_bg \<equiv> list_ex (\<lambda>c. fst c \<noteq> foreground) (map snd cs)"
  obtains
    (receive_throws) e where
      "layer_receive E fd L = Inl e"
      "draw E index fd ps = (Some e, ps\<lparr>stage := s1\<rparr>)"
  | (no_consumers) frame l1 where
      "layer_receive E fd L = Inr (frame, l1)" "cs = []"
      "draw E index fd ps =
         (None, ps\<lparr>stage := put_layer index l1 s1,
                   frames := map_assign index (snd frame) (frames ps)\<rparr>)"
  | (background_throws) frame l1 e where
      "layer_receive E fd L = Inr (frame, l1)" "cs \<noteq> []" "any_bg"
      "layer_receive_background E l1 = Inl e"
      "draw E index fd ps = (Some e, ps\<lparr>stage := put_layer index l1 s1\<rparr>)"
  | (sends) frame l1 frame_bg l2 where
      "layer_receive E fd L = Inr (frame, l1)" "cs \<noteq> []"
      "(if any_bg then layer_receive_background E l1 else Inr (Empty_frame, l1)) = Inr (frame_bg, l2)"
      "draw E index fd ps =
         (None, ps\<lparr>stage := put_layer index l2 (put_layer index l1 s1),
                   sent := sent ps @
                     map (send_frame (fst frame) frame_bg
                            (if any_bg then layer_has_background E l2 else False)) (map snd cs),
                   frames := map_assign index (snd frame) (frames ps)\<rparr>)"
proof (cases "layer_receive E fd L")
  case (Inl e)
  then have "draw E index fd ps = (Some e, ps\<lparr>stage := s1\<rparr>)"
    by (simp add: draw_def case_prod_beta Let_def L_def ls_def lc_def s1_def)
  then show ?thesis using Inl receive_throws by blast
next
  case (Inr res)
  obtain frame l1 where res: "res = (frame, l1)" by (cases res)
  have recv: "layer_receive E fd L = Inr (frame, l1)" using Inr res by simp
  show ?thesis
  proof (cases "cs = []")
    case True
    have "draw E index fd ps =
         (None, ps\<lparr>stage := put_layer index l1 s1,
                   frames := map_assign index (snd frame) (frames ps)\<rparr>)"
      using recv True unfolding L_def cs_def
      by (simp add: draw_def case_prod_beta Let_def ls_def lc_def s1_def)
    then show ?thesis using recv True no_consumers by blast
  next
    case False
    show ?thesis
    proof (cases "if any_bg then layer_receive_background E l1 else Inr (Empty_frame, l1)")
      case (Inl e)
      then have ab: "any_bg" and bg: "layer_receive_background E l1 = Inl e"
        by (simp_all split: if_splits)
      have "draw E index fd ps = (Some e, ps\<lparr>stage := put_layer index l1 s1\<rparr>)"
        using recv False ab bg unfolding L_def cs_def any_bg_def
        by (simp add: draw_def case_prod_beta Let_def ls_def lc_def s1_def)
      then show ?thesis using recv False ab bg background_throws by blast
    next
      case (Inr res2)
      obtain frame_bg l2 where res2: "res2 = (frame_bg, l2)" by (cases res2)
      have bg: "(if any_bg then layer_receive_background E l1 else Inr (Empty_frame, l1)) = Inr (frame_bg, l2)"
        using Inr res2 by simp
      have "draw E index fd ps =
         (None, ps\<lparr>stage := put_layer index l2 (put_layer index l1 s1),
                   sent := sent ps @
                     map (send_frame (fst frame) frame_bg
                            (if any_bg then layer_has_background E l2 else False)) (map snd cs),
                   frames := map_assign index (snd frame) (frames ps)\<rparr>)"
        using recv False bg unfolding L_def cs_def any_bg_def
        by (simp add: draw_def case_prod_beta Let_def ls_def lc_def s1_def)
      then show ?thesis using recv False bg sends by blast
    qed
  qed
qed

lemma draw_effects:
  assumes d: "draw E index fd ps = (r, ps')"
  shows "layer_consumers (stage ps') = snd (map_subscript index [] (layer_consumers (stage ps)))"
    and "logged ps' = logged ps"
    and "delivered ps' = delivered ps"
    and "aggregator (stage ps') = aggregator (stage ps)"
    and "channel_index (stage ps') = channel_index (stage ps)"
    and "set (keys (layers (stage ps'))) = insert index (set (keys (layers (stage ps))))"
    and "r = None \<Longrightarrow> set (keys (frames ps')) = insert index (set (keys (frames ps)))"
    and "r \<noteq> None \<Longrightarrow> frames ps' = frames ps"
    and "is_map (layers (stage ps)) \<Longrightarrow> is_map (layers (stage ps'))"
    and "is_map (frames ps) \<Longrightarrow> is_map (frames ps')"
proof -
  have all: "layer_consumers (stage ps') = snd (map_subscript index [] (layer_consumers (stage ps))) \<and>
     logged ps' = logged ps \<and> delivered ps' = delivered ps \<and>
     aggregator (stage ps') = aggregator (stage ps) \<and>
     channel_index (stage ps') = channel_index (stage ps) \<and>
     set (keys (layers (stage ps'))) = insert index (set (keys (layers (stage ps)))) \<and>
     (r = None \<longrightarrow> set (keys (frames ps')) = insert index (set (keys (frames ps)))) \<and>
     (r \<noteq> None \<longrightarrow> frames ps' = frames ps) \<and>
     (is_map (layers (stage ps)) \<longrightarrow> is_map (layers (stage ps'))) \<and>
     (is_map (frames ps) \<longrightarrow> is_map (frames ps'))"
  proof (cases rule: draw_cases[where E = E and index = index and ps = ps and fd = fd])
    case (receive_throws e)
    then have "r = Some e" and "ps' = ps\<lparr>stage := (stage ps)\<lparr>layers := snd (map_subscript index (layer_new E) (layers (stage ps))), layer_consumers := snd (map_subscript index [] (layer_consumers (stage ps)))\<rparr>\<rparr>"
      using d by simp_all
    then show ?thesis
      by (simp add: set_keys_map_subscript is_map_map_subscript)
  next
    case (no_consumers frame l1)
    then have "r = None" and "ps' = ps\<lparr>stage := put_layer index l1 ((stage ps)\<lparr>layers := snd (map_subscript index (layer_new E) (layers (stage ps))), layer_consumers := snd (map_subscript index [] (layer_consumers (stage ps)))\<rparr>),
                   frames := map_assign index (snd frame) (frames ps)\<rparr>"
      using d by simp_all
    then show ?thesis
      by (simp add: put_layer_fields set_keys_map_assign set_keys_map_subscript
          is_map_map_subscript is_map_map_assign)
  next
    case (background_throws frame l1 e)
    then have "r = Some e" and "ps' = ps\<lparr>stage := put_layer index l1 ((stage ps)\<lparr>layers := snd (map_subscript index (layer_new E) (layers (stage ps))), layer_consumers := snd (map_subscript index [] (layer_consumers (stage ps)))\<rparr>)\<rparr>"
      using d by simp_all
    then show ?thesis
      by (simp add: put_layer_fields set_keys_map_assign set_keys_map_subscript
          is_map_map_subscript is_map_map_assign)
  next
    case (sends frame l1 frame_bg l2)
    then have "r = None" and "stage ps' = put_layer index l2 (put_layer index l1 ((stage ps)\<lparr>layers := snd (map_subscript index (layer_new E) (layers (stage ps))), layer_consumers := snd (map_subscript index [] (layer_consumers (stage ps)))\<rparr>))"
      and "frames ps' = map_assign index (snd frame) (frames ps)"
      and "logged ps' = logged ps" and "delivered ps' = delivered ps"
      using d by auto
    then show ?thesis
      by (simp add: put_layer_fields set_keys_map_assign set_keys_map_subscript
          is_map_map_subscript is_map_map_assign)
  qed
  show "layer_consumers (stage ps') = snd (map_subscript index [] (layer_consumers (stage ps)))"
    and "logged ps' = logged ps"
    and "delivered ps' = delivered ps"
    and "aggregator (stage ps') = aggregator (stage ps)"
    and "channel_index (stage ps') = channel_index (stage ps)"
    and "set (keys (layers (stage ps'))) = insert index (set (keys (layers (stage ps))))"
    and "r = None \<Longrightarrow> set (keys (frames ps')) = insert index (set (keys (frames ps)))"
    and "r \<noteq> None \<Longrightarrow> frames ps' = frames ps"
    and "is_map (layers (stage ps)) \<Longrightarrow> is_map (layers (stage ps'))"
    and "is_map (frames ps) \<Longrightarrow> is_map (frames ps')"
    using all by simp_all
qed

lemma parallel_for_each_draw_effects:
  assumes "parallel_for_each_draw E fd indices ps = (r, ps')"
  shows "logged ps' = logged ps \<and> delivered ps' = delivered ps \<and>
     aggregator (stage ps') = aggregator (stage ps) \<and>
     channel_index (stage ps') = channel_index (stage ps) \<and>
     (set indices \<subseteq> set (keys (layer_consumers (stage ps))) \<longrightarrow>
        layer_consumers (stage ps') = layer_consumers (stage ps)) \<and>
     (set indices \<subseteq> set (keys (frames ps)) \<longrightarrow> set (keys (frames ps')) = set (keys (frames ps))) \<and>
     (r = None \<longrightarrow> set (keys (layers (stage ps'))) = set (keys (layers (stage ps))) \<union> set indices) \<and>
     (is_map (layers (stage ps)) \<longrightarrow> is_map (layers (stage ps'))) \<and>
     (is_map (frames ps) \<longrightarrow> is_map (frames ps'))"
  using assms
proof (induction indices arbitrary: ps)
  case Nil
  then show ?case by simp
next
  case (Cons index indices)
  obtain r1 ps1 where d: "draw E index fd ps = (r1, ps1)" by (cases "draw E index fd ps")
  note e = draw_effects[OF d]
  show ?case
  proof (cases r1)
    case None
    then have rest: "parallel_for_each_draw E fd indices ps1 = (r, ps')"
      using Cons.prems d by simp
    note IH = Cons.IH[OF rest]
    have lc: "layer_consumers (stage ps') = layer_consumers (stage ps)"
      if "set (index # indices) \<subseteq> set (keys (layer_consumers (stage ps)))"
    proof -
      have "layer_consumers (stage ps1) = layer_consumers (stage ps)"
        using that e(1) by (simp add: map_subscript_present)
      then show ?thesis using IH that by simp
    qed
    have fr: "set (keys (frames ps')) = set (keys (frames ps))"
      if "set (index # indices) \<subseteq> set (keys (frames ps))"
    proof -
      have "set (keys (frames ps1)) = set (keys (frames ps))"
        using that e(7)[OF None] by (simp add: insert_absorb)
      then show ?thesis using IH that by simp
    qed
    have ly: "set (keys (layers (stage ps'))) = set (keys (layers (stage ps))) \<union> set (index # indices)"
      if "r = None"
      using that IH e(6) by simp
    show ?thesis using IH e(2,3,4,5,9,10) lc fr ly by simp
  next
    case (Some err)
    then have r: "r = Some err" and p: "ps' = ps1" using Cons.prems d by simp_all
    have lc: "layer_consumers (stage ps') = layer_consumers (stage ps)"
      if "set (index # indices) \<subseteq> set (keys (layer_consumers (stage ps)))"
      using that e(1) p by (simp add: map_subscript_present)
    have fr: "frames ps' = frames ps" using e(8) Some p by simp
    show ?thesis using e(2,3,4,5,9,10) lc fr r p by simp
  qed
qed

text \<open>The two seeding loops of a pass, from a stage whose route table is a map.\<close>

lemma seeds:
  assumes lc: "is_map (layer_consumers s)"
    and sd1: "fold seed_layer (layers s) ([], layer_consumers s, []) = (fr1, lc1, ix1)"
    and sd2: "fold seed_consumers lc1 (fr1, lc1, ix1) = (fr2, lc2, ix2)"
  shows "lc2 = lc1" and "is_map lc1"
    and "map_find lc1 k = (case map_find (layer_consumers s) k of Some cs \<Rightarrow> Some cs
             | None \<Rightarrow> if k \<in> set (keys (layers s)) then Some [] else None)"
    and "set (keys fr2) = set ix2"
    and "set ix2 = set (keys (layers s)) \<union>
           {k. \<exists>cs. map_find (layer_consumers s) k = Some cs \<and> cs \<noteq> []}"
proof -
  note a = fold_seed_layer[OF lc sd1]
  have ix1: "ix1 = keys (layers s)" and fr1: "set (keys fr1) = set (keys (layers s))"
    and m1: "is_map lc1"
    using a by (simp_all add: keys_Nil)
  have f1: "map_find lc1 k = (case map_find (layer_consumers s) k of Some cs \<Rightarrow> Some cs
             | None \<Rightarrow> if k \<in> set (keys (layers s)) then Some [] else None)" for k
    using a by simp
  have "set (keys fr1) = set ix1" using ix1 fr1 by simp
  note b = fold_seed_consumers[OF subset_refl this sd2]
  show "lc2 = lc1" using b by simp
  show "is_map lc1" by (rule m1)
  show "map_find lc1 k = (case map_find (layer_consumers s) k of Some cs \<Rightarrow> Some cs
             | None \<Rightarrow> if k \<in> set (keys (layers s)) then Some [] else None)" by (rule f1)
  show "set (keys fr2) = set ix2" using b by simp
  have "j \<in> set (keys (layers s)) \<union> fst ` {e \<in> set lc1. snd e \<noteq> []} \<longleftrightarrow>
        j \<in> set (keys (layers s)) \<union> {k. \<exists>cs. map_find (layer_consumers s) k = Some cs \<and> cs \<noteq> []}" for j
  proof (cases "j \<in> set (keys (layers s))")
    case True
    then show ?thesis by simp
  next
    case False
    have "j \<in> fst ` {e \<in> set lc1. snd e \<noteq> []} \<longleftrightarrow> (\<exists>cs. (j, cs) \<in> set lc1 \<and> cs \<noteq> [])"
      by force
    also have "\<dots> \<longleftrightarrow> (\<exists>cs. map_find lc1 j = Some cs \<and> cs \<noteq> [])"
      using map_find_Some_iff[OF m1] by simp
    also have "\<dots> \<longleftrightarrow> (\<exists>cs. map_find (layer_consumers s) j = Some cs \<and> cs \<noteq> [])"
      using False by (simp add: f1 split: option.splits)
    finally show ?thesis using False by simp
  qed
  then have "set (keys (layers s)) \<union> fst ` {e \<in> set lc1. snd e \<noteq> []} =
        set (keys (layers s)) \<union> {k. \<exists>cs. map_find (layer_consumers s) k = Some cs \<and> cs \<noteq> []}"
    by blast
  then show "set ix2 = set (keys (layers s)) \<union>
           {k. \<exists>cs. map_find (layer_consumers s) k = Some cs \<and> cs \<noteq> []}"
    using b ix1 by simp
qed

lemma try_block_effects:
  assumes lc: "is_map (layer_consumers s)" and tb: "try_block E fd s = (r, ps)"
  shows "set (keys (frames ps)) =
           set (keys (layers s)) \<union> {k. \<exists>cs. map_find (layer_consumers s) k = Some cs \<and> cs \<noteq> []}"
    and "map_find (layer_consumers (stage ps)) k =
           (case map_find (layer_consumers s) k of Some cs \<Rightarrow> Some cs
            | None \<Rightarrow> if k \<in> set (keys (layers s)) then Some [] else None)"
    and "is_map (layer_consumers (stage ps))"
    and "r = None \<Longrightarrow> set (keys (layers (stage ps))) =
           set (keys (layers s)) \<union> {k. \<exists>cs. map_find (layer_consumers s) k = Some cs \<and> cs \<noteq> []}"
    and "is_map (layers s) \<Longrightarrow> is_map (layers (stage ps))"
    and "logged ps = []"
    and "channel_index (stage ps) = channel_index s"
proof -
  let ?routed = "{k. \<exists>cs. map_find (layer_consumers s) k = Some cs \<and> cs \<noteq> []}"
  obtain fr1 lc1 ix1 where sd1: "fold seed_layer (layers s) ([], layer_consumers s, []) = (fr1, lc1, ix1)"
    by (metis prod_cases3)
  obtain fr2 lc2 ix2 where sd2: "fold seed_consumers lc1 (fr1, lc1, ix1) = (fr2, lc2, ix2)"
    by (metis prod_cases3)
  note sd = seeds[OF lc sd1 sd2]
  define ps0 where "ps0 = \<lparr>stage = s\<lparr>layer_consumers := lc2\<rparr>, frames = fr2,
                sent = [], delivered = [], logged = []\<rparr>"
  obtain r0 psa where ts: "translate_and_send E ps0 = (r0, psa)"
    by (cases "translate_and_send E ps0")
  have tb': "try_block E fd s =
      (case r0 of Some e \<Rightarrow> (Some e, psa) | None \<Rightarrow> parallel_for_each_draw E fd ix2 psa)"
    using ts by (simp add: try_block_def Let_def sd1 sd2 ps0_def split: option.splits)
  note k = translate_and_send_keeps[OF ts]
  have sa: "stage psa = s\<lparr>layer_consumers := lc1, aggregator := []\<rparr>"
    and fa: "frames psa = fr2" and la: "logged psa = []"
    using k sd(1) by (simp_all add: ps0_def)
  have ixlc: "set ix2 \<subseteq> set (keys lc1)"
  proof
    fix j assume "j \<in> set ix2"
    then have "j \<in> set (keys (layers s)) \<union> ?routed" using sd(5) by simp
    then have "map_find lc1 j \<noteq> None" by (auto simp: sd(3) split: option.splits)
    then show "j \<in> set (keys lc1)" by (simp add: map_find_None_iff)
  qed
  have all: "set (keys (frames ps)) = set (keys (layers s)) \<union> ?routed \<and>
      layer_consumers (stage ps) = lc1 \<and>
      (r = None \<longrightarrow> set (keys (layers (stage ps))) = set (keys (layers s)) \<union> ?routed) \<and>
      (is_map (layers s) \<longrightarrow> is_map (layers (stage ps))) \<and> logged ps = [] \<and>
      channel_index (stage ps) = channel_index s"
  proof (cases r0)
    case (Some e)
    then have "r = Some e" and "ps = psa" using tb tb' by simp_all
    then show ?thesis using sa fa la sd(4,5) by simp
  next
    case None
    then have "parallel_for_each_draw E fd ix2 psa = (r, ps)" using tb tb' by simp
    note e = parallel_for_each_draw_effects[OF this]
    have "set ix2 \<subseteq> set (keys (layer_consumers (stage psa)))" using ixlc sa by simp
    moreover have "set ix2 \<subseteq> set (keys (frames psa))" using fa sd(4) by simp
    ultimately show ?thesis using e sa fa la sd(4,5) by auto
  qed
  show "set (keys (frames ps)) = set (keys (layers s)) \<union> ?routed" using all by simp
  show "map_find (layer_consumers (stage ps)) k =
           (case map_find (layer_consumers s) k of Some cs \<Rightarrow> Some cs
            | None \<Rightarrow> if k \<in> set (keys (layers s)) then Some [] else None)"
    using all sd(3) by simp
  show "is_map (layer_consumers (stage ps))" using all sd(2) by simp
  show "r = None \<Longrightarrow> set (keys (layers (stage ps))) = set (keys (layers s)) \<union> ?routed"
    using all by simp
  show "is_map (layers s) \<Longrightarrow> is_map (layers (stage ps))" using all by simp
  show "logged ps = []" using all by simp
  show "channel_index (stage ps) = channel_index s" using all by simp
qed

lemma operator_call_effects:
  assumes lc: "is_map (layer_consumers s)"
  shows "set (keys (frames (operator_call E fd s))) =
           set (keys (layers s)) \<union> {k. \<exists>cs. map_find (layer_consumers s) k = Some cs \<and> cs \<noteq> []}"
    and "map_find (layer_consumers (stage (operator_call E fd s))) k =
           (case map_find (layer_consumers s) k of Some cs \<Rightarrow> Some cs
            | None \<Rightarrow> if k \<in> set (keys (layers s)) then Some [] else None)"
    and "is_map (layer_consumers (stage (operator_call E fd s)))"
    and "is_map (layers s) \<Longrightarrow> is_map (layers (stage (operator_call E fd s)))"
proof -
  obtain r ps where tb: "try_block E fd s = (r, ps)" by (cases "try_block E fd s")
  note e = try_block_effects[OF lc tb]
  have oc: "operator_call E fd s =
      (case r of None \<Rightarrow> ps
       | Some err \<Rightarrow> ps\<lparr>stage := (stage ps)\<lparr>layers := []\<rparr>, logged := logged ps @ [err]\<rparr>)"
    by (simp add: operator_call_def tb split: option.splits)
  show "set (keys (frames (operator_call E fd s))) =
           set (keys (layers s)) \<union> {k. \<exists>cs. map_find (layer_consumers s) k = Some cs \<and> cs \<noteq> []}"
    using e(1) by (simp add: oc split: option.splits)
  show "map_find (layer_consumers (stage (operator_call E fd s))) k =
           (case map_find (layer_consumers s) k of Some cs \<Rightarrow> Some cs
            | None \<Rightarrow> if k \<in> set (keys (layers s)) then Some [] else None)"
    using e(2)[of k] by (cases r) (simp_all add: oc)
  show "is_map (layer_consumers (stage (operator_call E fd s)))"
    using e(3) by (cases r) (simp_all add: oc)
  show "is_map (layers s) \<Longrightarrow> is_map (layers (stage (operator_call E fd s)))"
    using e(5) by (cases r) (simp_all add: oc is_map_Nil)
qed

subsection \<open>Routes\<close>

lemma map_insert_not_Nil: "map_insert k v m \<noteq> []"
proof (cases m)
  case Nil
  then show ?thesis by simp
next
  case (Cons a m')
  obtain i w where "a = (i, w)" by (cases a)
  then show ?thesis using Cons by simp
qed

lemma add_layer_consumer_func_routes:
  "map_find (layer_consumers (add_layer_consumer_func tok layer mode c s)) k =
     (if k = layer
      then Some (map_insert tok (mode, c) (fst (map_subscript layer [] (layer_consumers s))))
      else map_find (layer_consumers s) k)"
  by (simp add: add_layer_consumer_func_def case_prod_beta map_find_map_assign map_find_map_subscript)

lemma add_layer_consumer_func_is_map:
  "is_map (layer_consumers s) \<Longrightarrow> is_map (layer_consumers (add_layer_consumer_func tok layer mode c s))"
  by (simp add: add_layer_consumer_func_def case_prod_beta is_map_map_assign is_map_map_subscript)

lemma add_layer_consumer_func_layers:
  "layers (add_layer_consumer_func tok layer mode c s) = layers s"
  by (simp add: add_layer_consumer_func_def case_prod_beta)

lemma layer_command_fields:
  "layer_consumers (put_layer index (f (fst (get_layer E index s))) (snd (get_layer E index s)))
     = layer_consumers s"
  "channel_index (put_layer index (f (fst (get_layer E index s))) (snd (get_layer E index s)))
     = channel_index s"
  "aggregator (put_layer index (f (fst (get_layer E index s))) (snd (get_layer E index s)))
     = aggregator s"
  by (simp_all add: put_layer_fields get_layer_other_fields)

lemma load_func_routes: "layer_consumers (load_func E index p pv ap s) = layer_consumers s"
  by (simp add: load_func_def case_prod_beta layer_command_fields)

text \<open>The invariant of the stages of C2: the route table is a map without empty entries.\<close>

lemma routed_loaded_cleared_routes:
  "routed_loaded_cleared E s \<Longrightarrow>
     is_map (layer_consumers s) \<and> (\<forall>k cs. map_find (layer_consumers s) k = Some cs \<longrightarrow> cs \<noteq> [])"
proof (induction rule: routed_loaded_cleared.induct)
  case (new_stage ch)
  show ?case by (simp add: impl_new_def is_map_Nil map_find_Nil)
next
  case (add_route s tok layer mode layer_consumer)
  then show ?case
    by (simp add: add_layer_consumer_func_routes add_layer_consumer_func_is_map map_insert_not_Nil)
next
  case (load_layer s index producer preview_arg auto_play_arg)
  then show ?case by (simp add: load_func_routes)
next
  case (clear_layer s index)
  then show ?case by (simp add: clear_func_def)
next
  case (clear_layers s)
  then show ?case by (simp add: clear_all_func_def)
qed

text \<open>
  C2. After any sequence of add-route, load and clear commands on a new stage, the
  keys of the map returned by the next render pass are the keys of the layer table
  together with the keys of the route table.
\<close>

theorem render_keys_are_layers_and_routes:
  assumes "routed_loaded_cleared E s"
  shows "set (keys (frames (operator_call E format_desc s))) =
           set (keys (layers s)) \<union> set (keys (layer_consumers s))"
proof -
  have m: "is_map (layer_consumers s)"
    and ne: "\<And>k cs. map_find (layer_consumers s) k = Some cs \<Longrightarrow> cs \<noteq> []"
    using routed_loaded_cleared_routes[OF assms] by blast+
  have "{k. \<exists>cs. map_find (layer_consumers s) k = Some cs \<and> cs \<noteq> []} = set (keys (layer_consumers s))"
  proof (rule set_eqI)
    fix k
    have "k \<in> set (keys (layer_consumers s)) \<longleftrightarrow> (\<exists>cs. map_find (layer_consumers s) k = Some cs)"
      using map_find_None_iff[of "layer_consumers s" k] by (cases "map_find (layer_consumers s) k") simp_all
    then show "k \<in> {k. \<exists>cs. map_find (layer_consumers s) k = Some cs \<and> cs \<noteq> []} \<longleftrightarrow>
               k \<in> set (keys (layer_consumers s))"
      using ne by blast
  qed
  then show ?thesis using operator_call_effects(1)[OF m, of E format_desc] by simp
qed

lemma stage_routed_tables:
  "keys (layers stage_routed) = [1, 3]" "keys (layer_consumers stage_routed) = [5]"
  by (simp_all add: stage_routed_def load_func_def add_layer_consumer_func_def get_layer_def
      put_layer_def map_subscript_def map_find_def impl_new_def keys_def Let_def)

theorem render_keys_are_layers_and_routes_witness:
  "routed_loaded_cleared line_env stage_routed \<and>
   set (keys (frames (operator_call line_env \<lparr>fps = 50\<rparr> stage_routed))) = {1, 3} \<union> {5}"
proof -
  have r: "routed_loaded_cleared line_env stage_routed"
    unfolding stage_routed_def
    by (intro routed_loaded_cleared.load_layer routed_loaded_cleared.add_route
        routed_loaded_cleared.new_stage)
  show ?thesis
    using r render_keys_are_layers_and_routes[OF r, of "\<lparr>fps = 50\<rparr>"]
    by (simp add: stage_routed_tables)
qed

text \<open>
  C6. Route fan-out of \<^verbatim>\<open>draw\<close>: when \<^verbatim>\<open>receive\<close> yields the raw and the
  transformed frame and \<^verbatim>\<open>receive_background\<close> yields \<open>frame_bg\<close>, every route entry
  of the index is sent one frame: the raw frame for mode foreground, \<open>frame_bg\<close> for
  mode background, and for mode next-producer \<open>frame_bg\<close> if the layer then has a
  background and the raw frame otherwise.
\<close>

theorem draw_route_fan_out:
  assumes d: "draw E index fd ps = (r, ps')"
    and recv: "layer_receive E fd (fst (map_subscript index (layer_new E) (layers (stage ps))))
                 = Inr ((raw, transformed), l1)"
    and bg: "layer_receive_background E l1 = Inr (frame_bg, l2)"
  shows "sent ps' = sent ps @
           map (\<lambda>(tok, mode, consumer).
                  (consumer,
                   case mode of
                     foreground \<Rightarrow> raw
                   | background \<Rightarrow> frame_bg
                   | next_producer \<Rightarrow> if layer_has_background E l2 then frame_bg else raw))
               (fst (map_subscript index [] (layer_consumers (stage ps))))"
proof (cases rule: draw_cases[where E = E and index = index and ps = ps and fd = fd])
  case (receive_throws e)
  then show ?thesis using recv by simp
next
  case (no_consumers frame l1')
  then show ?thesis using d by auto
next
  case (background_throws frame l1' e)
  then show ?thesis using recv bg by simp
next
  case (sends frame l1' frame_bg' l2')
  let ?cs = "fst (map_subscript index [] (layer_consumers (stage ps)))"
  let ?any = "list_ex (\<lambda>c. fst c \<noteq> foreground) (map snd ?cs)"
  have fr: "frame = (raw, transformed)" and l1: "l1' = l1" using sends(1) recv by simp_all
  have s: "sent ps' = sent ps @
      map (send_frame raw frame_bg' (if ?any then layer_has_background E l2' else False)) (map snd ?cs)"
    using sends(4) d fr by auto
  have "send_frame raw frame_bg' (if ?any then layer_has_background E l2' else False) (snd c) =
        (case c of (tok, mode, consumer) \<Rightarrow>
           (consumer,
            case mode of
              foreground \<Rightarrow> raw
            | background \<Rightarrow> frame_bg
            | next_producer \<Rightarrow> if layer_has_background E l2 then frame_bg else raw))"
    if c: "c \<in> set ?cs" for c
  proof (cases ?any)
    case True
    then have "frame_bg' = frame_bg" and "l2' = l2" using sends(3) bg l1 by simp_all
    then show ?thesis using True
      by (cases c; cases "fst (snd c)") (simp_all add: send_frame_def)
  next
    case False
    then have "fst (snd c) = foreground" using c by (auto simp: list_ex_iff)
    then show ?thesis using False by (cases c) (simp add: send_frame_def)
  qed
  then show ?thesis using s by (simp add: comp_def)
qed

theorem draw_route_fan_out_witness:
  "draw line_env 0 \<lparr>fps = 50\<rparr> pass_fan_out =
     (None, snd (draw line_env 0 \<lparr>fps = 50\<rparr> pass_fan_out)) \<and>
   sent (snd (draw line_env 0 \<lparr>fps = 50\<rparr> pass_fan_out)) =
     [(10, Frame 1), (11, Frame 2), (12, Frame 2)]"
proof -
  let ?L = "line_layer (Producer 1) (Producer 2) (tweened_transform_default line_env)"
  have d: "draw line_env 0 \<lparr>fps = 50\<rparr> pass_fan_out =
     (None, snd (draw line_env 0 \<lparr>fps = 50\<rparr> pass_fan_out))"
    by (simp add: draw_def pass_fan_out_def map_subscript_def map_find_def line_env_def
        line_layer_def Let_def put_layer_def)
  have recv: "layer_receive line_env \<lparr>fps = 50\<rparr>
      (fst (map_subscript 0 (layer_new line_env) (layers (stage pass_fan_out))))
       = Inr ((Frame 1, Frame 101), ?L)"
    by (simp add: pass_fan_out_def map_subscript_def map_find_def line_env_def line_layer_def)
  have bg: "layer_receive_background line_env ?L = Inr (Frame 2, ?L)"
    by (simp add: line_env_def line_layer_def)
  have hb: "layer_has_background line_env ?L"
    by (simp add: line_env_def line_layer_def)
  show ?thesis
    using d draw_route_fan_out[OF d recv bg] hb
    by (simp add: pass_fan_out_def map_subscript_def map_find_def)
qed

lemma operator_call_caught:
  "try_block E fd s = (Some e, ps) \<Longrightarrow>
     operator_call E fd s = ps\<lparr>stage := (stage ps)\<lparr>layers := []\<rparr>, logged := logged ps @ [e]\<rparr>"
  by (simp add: operator_call_def)

lemma operator_call_passed:
  "try_block E fd s = (None, ps) \<Longrightarrow> operator_call E fd s = ps"
  by (simp add: operator_call_def)

text \<open>
  C7. When an exception leaves the \<^verbatim>\<open>try\<close> block of a pass (from the flush of the
  interaction events or from the fan-out over the indices), \<^verbatim>\<open>operator()\<close> still
  returns: the layer table of the stage is empty afterwards, the exception is logged,
  and the map returned has the pre-seeded keys.
\<close>

theorem render_exception_clears_layers:
  assumes m: "is_map (layer_consumers s)"
    and thrown: "fst (try_block E fd s) = Some e"
  shows "layers (stage (operator_call E fd s)) = [] \<and>
         logged (operator_call E fd s) = [e] \<and>
         set (keys (frames (operator_call E fd s))) =
           set (keys (layers s)) \<union>
           {k. \<exists>cs. map_find (layer_consumers s) k = Some cs \<and> cs \<noteq> []}"
proof -
  obtain ps where tb: "try_block E fd s = (Some e, ps)"
    using thrown by (cases "try_block E fd s") simp
  note c = operator_call_caught[OF tb]
  note t = try_block_effects[OF m tb]
  show ?thesis using t(1,6) by (simp add: c)
qed

lemma try_block_stage_throwing:
  "fst (try_block line_env \<lparr>fps = 50\<rparr> stage_throwing) = Some (Exception ''receive'')"
  by (simp add: try_block_def stage_throwing_def seed_layer_def seed_consumers_def
      map_subscript_def map_find_def translate_and_send_def draw_def line_env_def
      line_layer_def Let_def)

theorem render_exception_clears_layers_witness:
  "is_map (layer_consumers stage_throwing) \<and>
   fst (try_block line_env \<lparr>fps = 50\<rparr> stage_throwing) = Some (Exception ''receive'') \<and>
   layers (stage (operator_call line_env \<lparr>fps = 50\<rparr> stage_throwing)) = [] \<and>
   logged (operator_call line_env \<lparr>fps = 50\<rparr> stage_throwing) = [Exception ''receive''] \<and>
   set (keys (frames (operator_call line_env \<lparr>fps = 50\<rparr> stage_throwing))) = {0, 2} \<union> {5}"
proof -
  have m: "is_map (layer_consumers stage_throwing)"
    by (simp add: stage_throwing_def is_map_def keys_def)
  have "{k. \<exists>cs. map_find (layer_consumers stage_throwing) k = Some cs \<and> cs \<noteq> []} = {5}"
    by (auto simp: stage_throwing_def map_find_def)
  then show ?thesis
    using m try_block_stage_throwing render_exception_clears_layers[OF m try_block_stage_throwing]
    by (simp add: stage_throwing_def keys_def)
qed

text \<open>
  C9, as amended. A pass writes both tables. Every index that enters the pass as a key
  of the layer table is a key of the route table afterwards; and when no exception
  leaves the \<^verbatim>\<open>try\<close> block, every index that enters the pass with a non-empty route
  map is a key of the layer table afterwards.
\<close>

theorem render_fills_both_tables:
  assumes m: "is_map (layer_consumers s)"
  shows "(\<forall>k. k \<in> set (keys (layers s)) \<longrightarrow>
            k \<in> set (keys (layer_consumers (stage (operator_call E fd s))))) \<and>
         (fst (try_block E fd s) = None \<longrightarrow>
            (\<forall>k cs. map_find (layer_consumers s) k = Some cs \<and> cs \<noteq> [] \<longrightarrow>
               k \<in> set (keys (layers (stage (operator_call E fd s))))))"
proof -
  obtain r ps where tb: "try_block E fd s = (r, ps)" by (cases "try_block E fd s")
  note t = try_block_effects[OF m tb]
  have a: "k \<in> set (keys (layer_consumers (stage (operator_call E fd s))))"
    if "k \<in> set (keys (layers s))" for k
  proof -
    have "map_find (layer_consumers (stage (operator_call E fd s))) k \<noteq> None"
      using that operator_call_effects(2)[OF m, of E fd k] by (simp split: option.splits)
    then show ?thesis by (simp add: map_find_None_iff)
  qed
  have b: "k \<in> set (keys (layers (stage (operator_call E fd s))))"
    if "fst (try_block E fd s) = None" and "map_find (layer_consumers s) k = Some cs" and "cs \<noteq> []"
    for k cs
  proof -
    have r: "r = None" using that(1) tb by simp
    then have "operator_call E fd s = ps" using tb operator_call_passed by blast
    then show ?thesis using t(4)[OF r] that(2,3) by auto
  qed
  show ?thesis using a b by blast
qed

theorem render_fills_both_tables_witness:
  "is_map (layer_consumers stage_routed) \<and>
   1 \<in> set (keys (layers stage_routed)) \<and>
   1 \<in> set (keys (layer_consumers (stage (operator_call line_env \<lparr>fps = 50\<rparr> stage_routed)))) \<and>
   fst (try_block line_env \<lparr>fps = 50\<rparr> stage_routed) = None \<and>
   map_find (layer_consumers stage_routed) 5 = Some [(7, (foreground, 9))] \<and>
   5 \<in> set (keys (layers (stage (operator_call line_env \<lparr>fps = 50\<rparr> stage_routed))))"
proof -
  have s: "stage_routed =
     \<lparr>channel_index = 1,
      layers = [(1, (layer_new line_env)\<lparr>foreground_producer := Producer 1, state := Paused\<rparr>),
                (3, (layer_new line_env)\<lparr>background_producer := Producer 3\<rparr>)],
      layer_consumers = [(5, [(7, (foreground, 9))])],
      aggregator = []\<rparr>"
    by (simp add: stage_routed_def load_func_def add_layer_consumer_func_def get_layer_def
        put_layer_def map_subscript_def map_find_def impl_new_def Let_def line_env_def layer_new_def)
  have m: "is_map (layer_consumers stage_routed)"
    by (simp add: s is_map_def keys_def)
  have t: "fst (try_block line_env \<lparr>fps = 50\<rparr> stage_routed) = None"
    by (simp add: s try_block_def seed_layer_def seed_consumers_def
      map_subscript_def map_find_def translate_and_send_def draw_def line_env_def
      layer_new_def Let_def put_layer_def send_frame_def tweened_transform_default_def
      tweened_transform_new_def)
  have f: "map_find (layer_consumers stage_routed) 5 = Some [(7, (foreground, 9))]"
    by (simp add: s map_find_def)
  have k: "1 \<in> set (keys (layers stage_routed))"
    by (simp add: s keys_def)
  show ?thesis
    using render_fills_both_tables[OF m, of line_env "\<lparr>fps = 50\<rparr>"] m t f k by blast
qed

text \<open>
  C9 as stated fails on a pass that catches an exception: index 5 enters with a
  non-empty route map, layer 0 throws, and the layer table is empty afterwards.
\<close>

theorem render_fills_both_tables_counterexample:
  "map_find (layer_consumers stage_throwing) 5 = Some [(7, (foreground, 9))] \<and>
   5 \<notin> set (keys (layers (stage (operator_call line_env \<lparr>fps = 50\<rparr> stage_throwing))))"
proof -
  obtain ps where tb: "try_block line_env \<lparr>fps = 50\<rparr> stage_throwing = (Some (Exception ''receive''), ps)"
    using try_block_stage_throwing by (cases "try_block line_env \<lparr>fps = 50\<rparr> stage_throwing") simp
  show ?thesis
    by (simp add: operator_call_caught[OF tb] keys_def) (simp add: stage_throwing_def map_find_def)
qed

subsection \<open>Interaction\<close>

lemma collission_detect_loop_Cons:
  "collission_detect_loop E x y (a # ls) =
     (if hit_test E x y (snd a) then Some (fetch E (tween (snd a)), a)
      else collission_detect_loop E x y ls)"
  by (simp add: hit_test_def Let_def)

lemma collission_detect_loop_find:
  "collission_detect_loop E x y ls =
     (case find (\<lambda>layer. hit_test E x y (snd layer)) ls of
        None \<Rightarrow> None
      | Some layer \<Rightarrow> Some (fetch E (tween (snd layer)), layer))"
proof (induction ls)
  case Nil
  show ?case by simp
next
  case (Cons a ls)
  show ?case
    unfolding collission_detect_loop_Cons using Cons.IH by simp
qed

lemma find_descending:
  fixes ds :: "('k::linorder \<times> 'v) list"
  shows "sorted_wrt (>) (keys ds) \<Longrightarrow> find P ds = Some a \<Longrightarrow>
     a \<in> set ds \<and> P a \<and> (\<forall>b \<in> set ds. fst a < fst b \<longrightarrow> \<not> P b)"
proof (induction ds)
  case Nil
  then show ?case by simp
next
  case (Cons d ds)
  have s: "sorted_wrt (>) (keys ds)" and lt: "\<forall>j \<in> set (keys ds). j < fst d"
    using Cons.prems(1) by (simp_all add: keys_Cons)
  show ?case
  proof (cases "P d")
    case True
    then have a: "a = d" using Cons.prems(2) by simp
    have "\<not> fst d < fst b" if "b \<in> set ds" for b
    proof -
      have "fst b \<in> set (keys ds)" using that by (simp add: keys_def)
      then have "fst b < fst d" using lt by simp
      then show ?thesis using less_not_sym by blast
    qed
    then show ?thesis using a True by auto
  next
    case False
    then have "find P ds = Some a" using Cons.prems(2) by simp
    from Cons.IH[OF s this] False show ?thesis by auto
  qed
qed

lemma descending_layers: "is_map m \<Longrightarrow> sorted_wrt (>) (keys (rev m))"
  by (simp add: is_map_def keys_def rev_map[symmetric] sorted_wrt_rev)

lemma translate_and_send_events_delivered:
  "translate_and_send_events E events ps = (None, ps') \<Longrightarrow>
     delivered ps' = delivered ps @ List.map_filter (delivery E (stage ps)) events"
proof (induction events arbitrary: ps)
  case Nil
  then show ?case by (simp add: map_filter_simps)
next
  case (Cons ev evs)
  show ?case
  proof (cases "find (\<lambda>layer. hit_test E (event_x ev) (event_y ev) (snd layer)) (rev (layers (stage ps)))")
    case None
    then have "translate_and_send_events E evs ps = (None, ps')"
      using Cons.prems by (simp add: collission_detect_def collission_detect_loop_find)
    from Cons.IH[OF this] None show ?thesis by (simp add: map_filter_simps delivery_def)
  next
    case (Some layer)
    then have cd: "collission_detect E (event_x ev) (event_y ev) (stage ps) =
        Some (fetch E (tween (snd layer)), layer)"
      by (simp add: collission_detect_def collission_detect_loop_find)
    show ?thesis
    proof (cases "layer_on_interaction E (snd layer) ev")
      case None
      then have "translate_and_send_events E evs (ps\<lparr>delivered := delivered ps @ [(ev, fst layer)]\<rparr>)
          = (None, ps')"
        using Cons.prems cd by simp
      from Cons.IH[OF this] Some show ?thesis by (simp add: map_filter_simps delivery_def)
    next
      case (Some e)
      then show ?thesis using Cons.prems cd by simp
    qed
  qed
qed

text \<open>
  C8. The hit test walks the layer table in strictly descending index order and
  returns the first layer hit at the event's point, with the layer's fetched
  transform; that layer is hit and no layer with a higher index is; when no layer is
  hit there is no target. A flush in which no delivery throws delivers each buffered
  event to its target and drops the events without one.
\<close>

theorem hit_test_topmost_first:
  assumes m: "is_map (layers s)"
  shows "sorted_wrt (>) (keys (rev (layers s))) \<and>
         collission_detect E x y s =
           (case find (\<lambda>layer. hit_test E x y (snd layer)) (rev (layers s)) of
              None \<Rightarrow> None
            | Some layer \<Rightarrow> Some (fetch E (tween (snd layer)), layer)) \<and>
         (\<forall>tr layer. collission_detect E x y s = Some (tr, layer) \<longrightarrow>
            layer \<in> set (layers s) \<and> hit_test E x y (snd layer) \<and>
            (\<forall>other \<in> set (layers s). fst layer < fst other \<longrightarrow> \<not> hit_test E x y (snd other))) \<and>
         (collission_detect E x y s = None \<longleftrightarrow>
            (\<forall>layer \<in> set (layers s). \<not> hit_test E x y (snd layer))) \<and>
         (\<forall>ps ps'. stage ps = s \<and> translate_and_send E ps = (None, ps') \<longrightarrow>
            delivered ps' = delivered ps @ List.map_filter (delivery E s) (aggregator s))"
proof -
  have d: "sorted_wrt (>) (keys (rev (layers s)))" using m by (rule descending_layers)
  have f: "collission_detect E x y s =
           (case find (\<lambda>layer. hit_test E x y (snd layer)) (rev (layers s)) of
              None \<Rightarrow> None
            | Some layer \<Rightarrow> Some (fetch E (tween (snd layer)), layer))"
    by (simp add: collission_detect_def collission_detect_loop_find)
  have top: "layer \<in> set (layers s) \<and> hit_test E x y (snd layer) \<and>
            (\<forall>other \<in> set (layers s). fst layer < fst other \<longrightarrow> \<not> hit_test E x y (snd other))"
    if "collission_detect E x y s = Some (tr, layer)" for tr layer
  proof -
    have "find (\<lambda>layer. hit_test E x y (snd layer)) (rev (layers s)) = Some layer"
      using that f by (simp split: option.splits)
    from find_descending[OF d this] show ?thesis by simp
  qed
  have none: "collission_detect E x y s = None \<longleftrightarrow>
            (\<forall>layer \<in> set (layers s). \<not> hit_test E x y (snd layer))"
  proof -
    have "collission_detect E x y s = None \<longleftrightarrow>
        find (\<lambda>layer. hit_test E x y (snd layer)) (rev (layers s)) = None"
      by (cases "find (\<lambda>layer. hit_test E x y (snd layer)) (rev (layers s))") (simp_all add: f)
    also have "\<dots> \<longleftrightarrow> (\<forall>layer \<in> set (layers s). \<not> hit_test E x y (snd layer))"
      unfolding find_None_iff by auto
    finally show ?thesis .
  qed
  have flush: "delivered ps' = delivered ps @ List.map_filter (delivery E s) (aggregator s)"
    if "stage ps = s" and "translate_and_send E ps = (None, ps')" for ps ps'
  proof -
    have "translate_and_send_events E (aggregator s) (ps\<lparr>stage := s\<lparr>aggregator := []\<rparr>\<rparr>) = (None, ps')"
      using that by (simp add: translate_and_send_def)
    from translate_and_send_events_delivered[OF this]
    have "delivered ps' = delivered ps @ List.map_filter (delivery E (s\<lparr>aggregator := []\<rparr>)) (aggregator s)"
      by simp
    moreover have "delivery E (s\<lparr>aggregator := []\<rparr>) = delivery E s"
      by (rule ext) (simp add: delivery_def)
    ultimately show ?thesis by simp
  qed
  show ?thesis using d f top none flush by blast
qed

lemma collission_detect_aggregator:
  "collission_detect E x y (s\<lparr>aggregator := a\<rparr>) = collission_detect E x y s"
  by (simp add: collission_detect_def)

theorem hit_test_topmost_first_witness:
  "is_map (layers stage_stacked) \<and>
   map_option (\<lambda>(tr, layer). (tr, fst layer)) (collission_detect line_env (1 / 2) (1 / 2) stage_stacked)
     = Some (0, 5) \<and>
   delivered (snd (translate_and_send line_env
      \<lparr>stage = stage_stacked, frames = [], sent = [], delivered = [], logged = []\<rparr>))
     = [(\<lparr>event_x = 1 / 2, event_y = 1 / 2, event_id = 0\<rparr>, 5)]"
proof -
  let ?ps = "\<lparr>stage = stage_stacked, frames = [], sent = [], delivered = [], logged = []\<rparr>"
  let ?ev = "\<lparr>event_x = 1 / 2, event_y = 1 / 2, event_id = 0\<rparr>"
  let ?top = "line_layer (Producer 5) Empty_producer (tweened_transform_default line_env)"
  have m: "is_map (layers stage_stacked)"
    by (simp add: stage_stacked_def is_map_def keys_def)
  have h: "hit_test line_env (1 / 2) (1 / 2) ?top"
    by (simp add: hit_test_def line_env_def line_layer_def fetch_def tweened_transform_default_def
        tweened_transform_new_def)
  have fd: "find (\<lambda>layer. hit_test line_env (1 / 2) (1 / 2) (snd layer)) (rev (layers stage_stacked))
      = Some (5, ?top)"
    using h by (simp add: stage_stacked_def)
  note t = hit_test_topmost_first[OF m, of line_env "1 / 2" "1 / 2"]
  have cd: "collission_detect line_env (1 / 2) (1 / 2) stage_stacked =
      Some (fetch line_env (tween ?top), (5, ?top))"
    using t[THEN conjunct2, THEN conjunct1] by (simp add: fd)
  have f: "fetch line_env (tween ?top) = 0"
    by (simp add: fetch_def line_env_def tweened_transform_default_def tweened_transform_new_def
        line_layer_def)
  have ag: "aggregator stage_stacked = [?ev]" by (simp add: stage_stacked_def)
  have oi: "layer_on_interaction line_env ?top ?ev = None" by (simp add: line_env_def)
  have ts: "translate_and_send line_env ?ps = (None, snd (translate_and_send line_env ?ps))"
    by (simp add: translate_and_send_def ag collission_detect_aggregator cd oi)
  have dl: "delivery line_env stage_stacked ?ev = Some (?ev, 5)"
    using fd by (simp add: delivery_def)
  have "delivered (snd (translate_and_send line_env ?ps)) =
      delivered ?ps @ List.map_filter (delivery line_env stage_stacked) (aggregator stage_stacked)"
    using t[THEN conjunct2, THEN conjunct2, THEN conjunct2, THEN conjunct2, rule_format,
        of ?ps "snd (translate_and_send line_env ?ps)"] ts
    by simp
  then have "delivered (snd (translate_and_send line_env ?ps)) = [(?ev, 5)]"
    by (simp add: map_filter_simps ag dl)
  then show ?thesis using m by (simp add: cd f)
qed

end
